theory Spec2Isabelle
  imports Complex_Main "HOL-Library.Log_Nat"
begin

chapter \<open>RaggedWiki: chunking, structure parsing and retrieval scoring\<close>

text \<open>
  A shallow embedding of the Python sources
  \<^verbatim>\<open>simple_rag_system/{chunker,ingest,query,config}.py\<close> and
  \<^verbatim>\<open>document-parser/scripts/parse_document_structure.py\<close>.
  Python \<^verbatim>\<open>str\<close> is \<^typ>\<open>string\<close> (one \<^typ>\<open>char\<close> per code point, ASCII
  documents), \<^verbatim>\<open>int\<close> is \<^typ>\<open>int\<close> or \<^typ>\<open>nat\<close> where the value is a length
  or a position, \<^verbatim>\<open>float\<close> is a real number on the binary64 grid with every
  operation rounded to nearest (ties to even), a raised exception is the left
  summand of a result, and a loop that need not end is a partial function whose
  value \<^term>\<open>None\<close> means that it does not return.
\<close>

section \<open>Python values\<close>

datatype error = ValueError | TypeError | KeyError | IndexError | ZeroDivisionError

definition ebind :: "'e + 'a \<Rightarrow> ('a \<Rightarrow> 'e + 'b) \<Rightarrow> 'e + 'b" where
  "ebind m f = (case m of Inl e \<Rightarrow> Inl e | Inr x \<Rightarrow> f x)"

text \<open>A list comprehension whose element expression may raise.\<close>

fun emap :: "('a \<Rightarrow> 'e + 'b) \<Rightarrow> 'a list \<Rightarrow> 'e + 'b list" where
  "emap f [] = Inr []"
| "emap f (x # xs) = ebind (f x) (\<lambda>y. ebind (emap f xs) (\<lambda>ys. Inr (y # ys)))"

text \<open>\<^verbatim>\<open>xs[i]\<close> for an index taken from \<^verbatim>\<open>range(...)\<close>.\<close>

definition py_nth :: "'a list \<Rightarrow> nat \<Rightarrow> error + 'a" where
  "py_nth xs i = (if i < length xs then Inr (xs ! i) else Inl IndexError)"

subsection \<open>Floats\<close>

text \<open>
  A finite \<^verbatim>\<open>float\<close> is a real number of the form \<open>m * 2^e\<close> with a 53-bit
  significand; \<open>fl\<close> rounds an exact result to the nearest such number, ties to
  the even significand, with the subnormal spacing \<open>2^-1074\<close> below \<open>2^-1022\<close>.
  A float literal of the source such as \<^verbatim>\<open>0.7\<close> denotes \<open>fl (7/10)\<close>.
  Overflow to infinity is outside \<open>fl\<close>; \<open>MAX_DOUBLE\<close> is the largest finite
  value.
\<close>

definition round_even :: "real \<Rightarrow> int" where
  "round_even y = (let f = \<lfloor>y\<rfloor>; r = y - of_int f in
     if r < 1/2 then f else if 1/2 < r then f + 1 else if even f then f else f + 1)"

text \<open>The binary exponent of a positive number: \<open>2^e \<le> x < 2^(e+1)\<close>.\<close>

definition ilog2 :: "real \<Rightarrow> int" where
  "ilog2 x = (if 1 \<le> x then bitlen \<lfloor>x\<rfloor> - 1 else - bitlen (\<lceil>1 / x\<rceil> - 1))"

definition fl_exp :: "real \<Rightarrow> int" where
  "fl_exp x = max (ilog2 x) (- 1022)"

definition fl_ulp :: "real \<Rightarrow> real" where
  "fl_ulp x = 2 powi (fl_exp x - 52)"

definition fl :: "real \<Rightarrow> real" where
  "fl x = (if x = 0 then 0
           else sgn x * (of_int (round_even (\<bar>x\<bar> / fl_ulp \<bar>x\<bar>)) * fl_ulp \<bar>x\<bar>))"

definition MAX_DOUBLE :: real where
  "MAX_DOUBLE = (2 ^ 53 - 1) * 2 ^ 971"

definition is_double :: "real \<Rightarrow> bool" where
  "is_double x = (fl x = x \<and> \<bar>x\<bar> \<le> MAX_DOUBLE)"


subsection \<open>Strings\<close>

text \<open>
  The characters \<^verbatim>\<open>str.isspace\<close>, \<^verbatim>\<open>str.strip\<close>, \<^verbatim>\<open>str.split()\<close> and the
  regular expression class \<^verbatim>\<open>\s\<close> treat as whitespace, in the ASCII range:
  tab, line feed, vertical tab, form feed, carriage return, the four separators
  0x1c to 0x1f and the blank.
\<close>

definition is_space :: "char \<Rightarrow> bool" where
  "is_space c = (let n = (of_char c :: nat) in (9 \<le> n \<and> n \<le> 13) \<or> (28 \<le> n \<and> n \<le> 32))"

definition newline :: char where
  "newline = CHR 0x0A"

text \<open>\<^verbatim>\<open>s.strip()\<close>\<close>

definition strip :: "string \<Rightarrow> string" where
  "strip s = rev (dropWhile is_space (rev (dropWhile is_space s)))"

text \<open>\<^verbatim>\<open>s.split(c)\<close> for a one-character separator: never empty, \<^verbatim>\<open>''.split(c) == ['']\<close>.\<close>

fun split_char :: "char \<Rightarrow> string \<Rightarrow> string list" where
  "split_char c [] = [[]]"
| "split_char c (x # xs) =
     (if x = c then [] # split_char c xs
      else (case split_char c xs of w # ws \<Rightarrow> (x # w) # ws | [] \<Rightarrow> [[x]]))"

text \<open>\<^verbatim>\<open>sep.join(parts)\<close>\<close>

fun join :: "string \<Rightarrow> string list \<Rightarrow> string" where
  "join sep [] = []"
| "join sep [x] = x"
| "join sep (x # y # zs) = x @ sep @ join sep (y # zs)"

text \<open>\<^verbatim>\<open>s.split()\<close>: the maximal runs of characters that are not whitespace.\<close>

function split_ws :: "string \<Rightarrow> string list" where
  "split_ws s =
     (let s' = dropWhile is_space s
      in if s' = [] then []
         else takeWhile (\<lambda>c. \<not> is_space c) s' # split_ws (dropWhile (\<lambda>c. \<not> is_space c) s'))"
  by pat_completeness auto
termination
proof (relation "measure length", goal_cases)
  case 1
  show ?case by simp
next
  case (2 s s')
  then obtain c cs where s': "s' = c # cs" and c: "\<not> is_space c"
    by (metis hd_dropWhile list.exhaust list.sel(1))
  have "length (dropWhile (\<lambda>c. \<not> is_space c) s') \<le> length cs"
    using c by (simp add: s' length_dropWhile_le)
  also have "\<dots> < length s'" by (simp add: s')
  also have "\<dots> \<le> length s" using 2(1) by (simp add: length_dropWhile_le)
  finally show ?case by simp
qed

text \<open>
  \<^verbatim>\<open>xs[s:e]\<close> with integer bounds: a negative bound counts from the end, and both
  are clipped to the list.
\<close>

definition py_slice :: "'a list \<Rightarrow> int \<Rightarrow> int \<Rightarrow> 'a list" where
  "py_slice xs s e =
     (let n = int (length xs);
          s' = (if s < 0 then max (s + n) 0 else min s n);
          e' = (if e < 0 then max (e + n) 0 else min e n)
      in take (nat (e' - s')) (drop (nat s') xs))"

text \<open>\<^verbatim>\<open>str(n)\<close> for a non-negative integer, as an f-string renders it.\<close>

definition digit_char :: "nat \<Rightarrow> char" where
  "digit_char d = char_of (48 + d)"

function str_nat :: "nat \<Rightarrow> string" where
  "str_nat n = (if n < 10 then [digit_char n] else str_nat (n div 10) @ [digit_char (n mod 10)])"
  by pat_completeness auto
termination
  by (relation "measure (\<lambda>n. n)") auto

declare str_nat.simps [simp del]

definition str_int :: "int \<Rightarrow> string" where
  "str_int n = (if n < 0 then CHR ''-'' # str_nat (nat (- n)) else str_nat (nat n))"

text \<open>
  \<^verbatim>\<open>s.rfind(sub)\<close>: the highest index at which \<open>sub\<close> starts in \<open>s\<close>, or -1.
\<close>

definition rfind :: "string \<Rightarrow> string \<Rightarrow> int" where
  "rfind s sub =
     (case filter (\<lambda>i. take (length sub) (drop i s) = sub) [0 ..< Suc (length s)] of
        [] \<Rightarrow> - 1
      | ps \<Rightarrow> int (last ps))"

subsection \<open>Dictionaries\<close>

text \<open>
  The values a chunk dictionary holds, and the operations the chunkers apply to
  them: \<^verbatim>\<open>d[k]\<close>, \<^verbatim>\<open>v < n\<close> for an integer \<open>n\<close>, \<^verbatim>\<open>v + s\<close> and \<^verbatim>\<open>s + v\<close>
  for a string \<open>s\<close>, and the rendering of \<^verbatim>\<open>v\<close> inside an f-string.
\<close>

datatype pyval = PStr string | PInt int | PBool bool

type_synonym pydict = "string \<rightharpoonup> pyval"

definition py_get :: "pydict \<Rightarrow> string \<Rightarrow> error + pyval" where
  "py_get d k = (case d k of None \<Rightarrow> Inl KeyError | Some v \<Rightarrow> Inr v)"

fun py_less_int :: "pyval \<Rightarrow> int \<Rightarrow> error + bool" where
  "py_less_int (PInt a) n = Inr (a < n)"
| "py_less_int (PBool b) n = Inr ((if b then 1 else 0) < n)"
| "py_less_int (PStr s) n = Inl TypeError"

fun py_add_str :: "pyval \<Rightarrow> string \<Rightarrow> error + string" where
  "py_add_str (PStr a) s = Inr (a @ s)"
| "py_add_str (PInt a) s = Inl TypeError"
| "py_add_str (PBool b) s = Inl TypeError"

fun py_str_add :: "string \<Rightarrow> pyval \<Rightarrow> error + string" where
  "py_str_add a (PStr s) = Inr (a @ s)"
| "py_str_add a (PInt n) = Inl TypeError"
| "py_str_add a (PBool b) = Inl TypeError"

fun py_format :: "pyval \<Rightarrow> string" where
  "py_format (PStr s) = s"
| "py_format (PInt n) = str_int n"
| "py_format (PBool b) = (if b then ''True'' else ''False'')"


section \<open>parse_document_structure.py: the structure parser\<close>

text \<open>
  \<^verbatim>\<open>count_tokens\<close>: \<^verbatim>\<open>int(len(text.split()) * 1.3)\<close>, a float product truncated
  towards zero.
\<close>

definition count_tokens_estimate :: "string \<Rightarrow> int" where
  "count_tokens_estimate text = \<lfloor>fl (real (length (split_ws text)) * fl (13 / 10))\<rfloor>"

record header =
  level :: nat
  title :: string
  line_num :: int

text \<open>
  \<^verbatim>\<open>re.match(r'^(#{1,6})\s+(.+)$', line)\<close> on a line without a line feed: the
  number of hashes and the second group. One to six hashes must be followed by
  whitespace; the whitespace run is greedy but gives its last character back when
  nothing else is left for the title group.
\<close>

definition match_header :: "string \<Rightarrow> (nat \<times> string) option" where
  "match_header line =
     (let h = length (takeWhile (\<lambda>c. c = CHR ''#'') line);
          rest = dropWhile (\<lambda>c. c = CHR ''#'') line;
          ws = takeWhile is_space rest;
          r = dropWhile is_space rest
      in if h < 1 \<or> 6 < h \<or> ws = [] then None
         else if r \<noteq> [] then Some (h, r)
         else if 2 \<le> length ws then Some (h, [last ws])
         else None)"

text \<open>\<^verbatim>\<open>extract_headers\<close>: the loop over \<^verbatim>\<open>enumerate(lines, 1)\<close>.\<close>

fun extract_headers_loop :: "int \<Rightarrow> string list \<Rightarrow> header list" where
  "extract_headers_loop i [] = []"
| "extract_headers_loop i (line # lines) =
     (case match_header (strip line) of
        Some (h, t) \<Rightarrow> \<lparr>level = h, title = strip t, line_num = i\<rparr> # extract_headers_loop (i + 1) lines
      | None \<Rightarrow> extract_headers_loop (i + 1) lines)"

definition extract_headers :: "string \<Rightarrow> header list" where
  "extract_headers content = extract_headers_loop 1 (split_char newline content)"

record section_dict =
  sec_id :: string
  sec_title :: string
  sec_level :: nat
  parent_id :: "string option"
  start_line :: int
  end_line :: int
  token_count :: int
  sec_content :: string
  children :: "string list"

text \<open>\<^verbatim>\<open>f"sec_{i}"\<close>\<close>

definition sec_name :: "nat \<Rightarrow> string" where
  "sec_name i = ''sec_'' @ str_nat i"

text \<open>
  \<^verbatim>\<open>for j in range(i - 1, -1, -1)\<close>: the nearest earlier header of a lower level,
  searched downwards from \<open>i - 1\<close>; the argument counts the headers still to try.
\<close>

fun find_parent :: "header list \<Rightarrow> nat \<Rightarrow> nat \<Rightarrow> string option" where
  "find_parent headers lvl 0 = None"
| "find_parent headers lvl (Suc j) =
     (if level (headers ! j) < lvl then Some (sec_name j) else find_parent headers lvl j)"

text \<open>The section built for the header at index \<open>i\<close>, before the children are filled in.\<close>

definition make_section :: "string list \<Rightarrow> header list \<Rightarrow> nat \<Rightarrow> section_dict" where
  "make_section lines headers i =
     (let hdr = headers ! i;
          start = line_num hdr;
          stop = (if i + 1 < length headers then line_num (headers ! (i + 1)) - 1
                 else int (length lines));
          section_content = join [newline] (py_slice lines start stop)
      in \<lparr>sec_id = sec_name i, sec_title = title hdr, sec_level = level hdr,
          parent_id = find_parent headers (level hdr) i,
          start_line = start, end_line = stop,
          token_count = count_tokens_estimate section_content,
          sec_content = section_content, children = []\<rparr>)"

text \<open>
  The second loop: every section's children are the ids of the sections, in list
  order, whose \<open>parent_id\<close> is its id.
\<close>

definition add_children :: "section_dict list \<Rightarrow> section_dict \<Rightarrow> section_dict" where
  "add_children sections s =
     s\<lparr>children := children s @
          map sec_id (filter (\<lambda>other. parent_id other = Some (sec_id s)) sections)\<rparr>"

definition build_section_hierarchy :: "string \<Rightarrow> header list \<Rightarrow> section_dict list" where
  "build_section_hierarchy content headers =
     (let lines = split_char newline content;
          sections = map (make_section lines headers) [0 ..< length headers]
      in map (add_children sections) sections)"

text \<open>
  The parent/child graph of a section list: an edge from a section's id to its
  \<open>parent_id\<close>.
\<close>

definition parent_edges :: "section_dict list \<Rightarrow> (string \<times> string) set" where
  "parent_edges sections =
     set (concat (map (\<lambda>s. case parent_id s of None \<Rightarrow> [] | Some p \<Rightarrow> [(sec_id s, p)]) sections))"


section \<open>config.py and chunker.py: the chunking strategies\<close>

text \<open>The configuration values the chunkers and the factory read.\<close>

record config =
  CHUNKING_STRATEGY :: string
  LAYOUT_AWARE_MAX_TOKENS :: int
  LAYOUT_AWARE_MIN_TOKENS :: int
  LAYOUT_AWARE_MERGE_SMALL :: bool
  NAIVE_CHUNK_SIZE :: int
  NAIVE_OVERLAP :: int
  ABSTRACT_MAX_TOKENS :: int
  ABSTRACT_GENERATION_METHOD :: string

definition default_config :: config where
  "default_config =
     \<lparr>CHUNKING_STRATEGY = ''layout-aware'',
      LAYOUT_AWARE_MAX_TOKENS = 900,
      LAYOUT_AWARE_MIN_TOKENS = 200,
      LAYOUT_AWARE_MERGE_SMALL = True,
      NAIVE_CHUNK_SIZE = 512,
      NAIVE_OVERLAP = 50,
      ABSTRACT_MAX_TOKENS = 200,
      ABSTRACT_GENERATION_METHOD = ''extractive''\<rparr>"

text \<open>
  The tokenizer (\<^verbatim>\<open>tiktoken.get_encoding(...)\<close>) is a collaborator: any pair of
  an encoder and a decoder. \<open>char_encoding\<close>, one token per character, stands in
  for it where a concrete run is evaluated.
\<close>

record 'tok encoding =
  encode :: "string \<Rightarrow> 'tok list"
  decode :: "'tok list \<Rightarrow> string"

definition char_encoding :: "char encoding" where
  "char_encoding = \<lparr>encode = (\<lambda>s. s), decode = (\<lambda>ts. ts)\<rparr>"

definition count_tokens :: "'tok encoding \<Rightarrow> string \<Rightarrow> int" where
  "count_tokens enc text = int (length (encode enc text))"

subsection \<open>LayoutAwareChunker\<close>

text \<open>
  \<^verbatim>\<open>re.match(r'^##\s+(.+)$', line)\<close> and \<^verbatim>\<open>re.match(r'^###\s+(.+)$', line)\<close> on a
  line without a line feed: the group, for the given run of hashes.
\<close>

definition match_heading :: "string \<Rightarrow> string \<Rightarrow> string option" where
  "match_heading hashes line =
     (if take (length hashes) line = hashes then
        (let rest = drop (length hashes) line;
             ws = takeWhile is_space rest;
             r = dropWhile is_space rest
         in if ws = [] then None
            else if r \<noteq> [] then Some r
            else if 2 \<le> length ws then Some [last ws]
            else None)
      else None)"

record text_section =
  part_title :: string
  part_content :: string

text \<open>
  The loop of \<^verbatim>\<open>_split_by_h2\<close> and \<^verbatim>\<open>_split_by_h3\<close> (the two differ in the
  pattern and in the first title), with the save of the last section after it.
\<close>

fun split_loop ::
  "string \<Rightarrow> string list \<Rightarrow> text_section list \<Rightarrow> string list \<Rightarrow> string \<Rightarrow> text_section list" where
  "split_loop hashes [] sections current_section current_title =
     (if current_section \<noteq> []
      then sections @ [\<lparr>part_title = current_title,
                        part_content = strip (join [newline] current_section)\<rparr>]
      else sections)"
| "split_loop hashes (line # lines) sections current_section current_title =
     (case match_heading hashes line of
        Some t \<Rightarrow>
          split_loop hashes lines
            (if current_section \<noteq> []
             then sections @ [\<lparr>part_title = current_title,
                               part_content = strip (join [newline] current_section)\<rparr>]
             else sections)
            [line] t
      | None \<Rightarrow> split_loop hashes lines sections (current_section @ [line]) current_title)"

definition split_by_h2 :: "string \<Rightarrow> text_section list" where
  "split_by_h2 content = split_loop ''##'' (split_char newline content) [] [] ''Introduction''"

definition split_by_h3 :: "string \<Rightarrow> text_section list" where
  "split_by_h3 content = split_loop ''###'' (split_char newline content) [] [] ''Section''"

text \<open>The inner loop of \<^verbatim>\<open>chunk\<close>: one h3 chunk per subsection of an oversized section.\<close>

fun h3_loop ::
  "'tok encoding \<Rightarrow> pydict \<Rightarrow> string \<Rightarrow> text_section list \<Rightarrow> pydict list \<Rightarrow> pydict list" where
  "h3_loop enc metadata parent_title [] chunks = chunks"
| "h3_loop enc metadata parent_title (subsection # subsections) chunks =
     h3_loop enc metadata parent_title subsections
       (chunks @
        [[''content'' \<mapsto> PStr (part_content subsection),
          ''section_title'' \<mapsto> PStr (parent_title @ '' - '' @ part_title subsection),
          ''heading_level'' \<mapsto> PStr ''h3'',
          ''tokens'' \<mapsto> PInt (count_tokens enc (part_content subsection)),
          ''chunk_index'' \<mapsto> PInt (int (length chunks))] ++ metadata])"

text \<open>The outer loop of \<^verbatim>\<open>chunk\<close> over the h2 sections.\<close>

fun h2_loop ::
  "config \<Rightarrow> 'tok encoding \<Rightarrow> pydict \<Rightarrow> text_section list \<Rightarrow> pydict list \<Rightarrow> pydict list" where
  "h2_loop cfg enc metadata [] chunks = chunks"
| "h2_loop cfg enc metadata (sec # sections) chunks =
     (let token_count = count_tokens enc (part_content sec)
      in if token_count < 50 then h2_loop cfg enc metadata sections chunks
         else if LAYOUT_AWARE_MAX_TOKENS cfg < token_count
         then h2_loop cfg enc metadata sections
                (h3_loop enc metadata (part_title sec) (split_by_h3 (part_content sec)) chunks)
         else h2_loop cfg enc metadata sections
                (chunks @
                 [[''content'' \<mapsto> PStr (part_content sec),
                   ''section_title'' \<mapsto> PStr (part_title sec),
                   ''heading_level'' \<mapsto> PStr ''h2'',
                   ''tokens'' \<mapsto> PInt token_count,
                   ''chunk_index'' \<mapsto> PInt (int (length chunks))] ++ metadata]))"

text \<open>
  \<^verbatim>\<open>_merge_small_chunks\<close>: the while loop over the index \<open>i\<close>, as a recursion over
  the chunks from \<open>i\<close> on. A merged chunk is \<^verbatim>\<open>{**current, ...}\<close> with the four
  keys content, section_title, tokens and merged replaced.
\<close>

fun merge_small_chunks :: "config \<Rightarrow> 'tok encoding \<Rightarrow> pydict list \<Rightarrow> error + pydict list" where
  "merge_small_chunks cfg enc [] = Inr []"
| "merge_small_chunks cfg enc [current] =
     ebind (py_get current ''tokens'') (\<lambda>t.
     ebind (py_less_int t (LAYOUT_AWARE_MIN_TOKENS cfg)) (\<lambda>small. Inr [current]))"
| "merge_small_chunks cfg enc (current # next_chunk # rest) =
     ebind (py_get current ''tokens'') (\<lambda>t.
     ebind (py_less_int t (LAYOUT_AWARE_MIN_TOKENS cfg)) (\<lambda>small.
       if small then
         ebind (py_get current ''content'') (\<lambda>c1.
         ebind (py_add_str c1 [newline, newline]) (\<lambda>c1'.
         ebind (py_get next_chunk ''content'') (\<lambda>c2.
         ebind (py_str_add c1' c2) (\<lambda>merged_content.
         ebind (py_get current ''section_title'') (\<lambda>t1.
         ebind (py_get next_chunk ''section_title'') (\<lambda>t2.
         ebind (merge_small_chunks cfg enc rest) (\<lambda>merged.
           Inr (current(''content'' \<mapsto> PStr merged_content,
                        ''section_title'' \<mapsto> PStr (py_format t1 @ '' + '' @ py_format t2),
                        ''tokens'' \<mapsto> PInt (count_tokens enc merged_content),
                        ''merged'' \<mapsto> PBool True) # merged))))))))
       else ebind (merge_small_chunks cfg enc (next_chunk # rest)) (\<lambda>merged.
              Inr (current # merged))))"

text \<open>\<^verbatim>\<open>LayoutAwareChunker.chunk\<close>\<close>

definition layout_aware_chunk ::
  "config \<Rightarrow> 'tok encoding \<Rightarrow> string \<Rightarrow> pydict \<Rightarrow> error + pydict list" where
  "layout_aware_chunk cfg enc content metadata =
     (let sections = split_by_h2 content;
          chunks = h2_loop cfg enc metadata sections []
      in if LAYOUT_AWARE_MERGE_SMALL cfg then merge_small_chunks cfg enc chunks else Inr chunks)"

subsection \<open>NaiveChunker\<close>

text \<open>
  One pass through the body of \<^verbatim>\<open>while start < len(tokens)\<close>, on the pair of
  \<^verbatim>\<open>chunks\<close> and \<^verbatim>\<open>start\<close>.
\<close>

definition naive_step ::
  "config \<Rightarrow> 'tok encoding \<Rightarrow> pydict \<Rightarrow> 'tok list \<Rightarrow> pydict list \<times> int \<Rightarrow> pydict list \<times> int" where
  "naive_step cfg enc metadata tokens st =
     (let chunks = fst st;
          start = snd st;
          stop = min (start + NAIVE_CHUNK_SIZE cfg) (int (length tokens));
          chunk_tokens = py_slice tokens start stop;
          chunk_text = decode enc chunk_tokens
      in (chunks @
          [[''content'' \<mapsto> PStr chunk_text,
            ''section_title'' \<mapsto> PStr (''Chunk '' @ str_nat (length chunks + 1)),
            ''heading_level'' \<mapsto> PStr ''none'',
            ''tokens'' \<mapsto> PInt (int (length chunk_tokens)),
            ''chunk_index'' \<mapsto> PInt (int (length chunks)),
            ''start_token'' \<mapsto> PInt start,
            ''end_token'' \<mapsto> PInt stop] ++ metadata],
          stop - NAIVE_OVERLAP cfg))"

text \<open>The while loop: \<open>None\<close> when it never leaves.\<close>

partial_function (option) naive_loop ::
  "config \<Rightarrow> 'tok encoding \<Rightarrow> pydict \<Rightarrow> 'tok list \<Rightarrow> pydict list \<times> int \<Rightarrow> pydict list option" where
  "naive_loop cfg enc metadata tokens st =
     (if snd st < int (length tokens)
      then naive_loop cfg enc metadata tokens (naive_step cfg enc metadata tokens st)
      else Some (fst st))"

declare naive_loop.simps [code]

text \<open>\<^verbatim>\<open>NaiveChunker.chunk\<close>\<close>

definition naive_chunk ::
  "config \<Rightarrow> 'tok encoding \<Rightarrow> string \<Rightarrow> pydict \<Rightarrow> pydict list option" where
  "naive_chunk cfg enc content metadata =
     naive_loop cfg enc metadata (encode enc content) ([], 0)"

text \<open>The token ranges the chunks of a list record.\<close>

definition token_ranges :: "pydict list \<Rightarrow> (pyval option \<times> pyval option) list" where
  "token_ranges chunks = map (\<lambda>c. (c ''start_token'', c ''end_token'')) chunks"

subsection \<open>AbstractFirstChunker\<close>

text \<open>
  The loop \<^verbatim>\<open>for char in ['. ', '! ', '? ']\<close> of \<^verbatim>\<open>_extractive_abstract\<close>: the
  first terminator whose last occurrence lies beyond \<^verbatim>\<open>len(abstract) * 0.7\<close> cuts
  the abstract after its first character and ends the loop.
\<close>

fun sentence_loop :: "string list \<Rightarrow> string \<Rightarrow> string" where
  "sentence_loop [] abstract = abstract"
| "sentence_loop (char # chars) abstract =
     (let last_pos = rfind abstract char
      in if fl (real (length abstract) * fl (7 / 10)) < real_of_int last_pos
         then take (nat (last_pos + 1)) abstract
         else sentence_loop chars abstract)"

definition extractive_abstract :: "config \<Rightarrow> 'tok encoding \<Rightarrow> string \<Rightarrow> string" where
  "extractive_abstract cfg enc content =
     (let tokens = encode enc content;
          abstract_tokens = py_slice tokens 0 (ABSTRACT_MAX_TOKENS cfg);
          abstract = decode enc abstract_tokens
      in sentence_loop [''. '', ''! '', ''? ''] abstract)"

text \<open>\<^verbatim>\<open>_generate_abstract\<close>: both branches are the extractive path.\<close>

definition generate_abstract :: "config \<Rightarrow> 'tok encoding \<Rightarrow> string \<Rightarrow> string" where
  "generate_abstract cfg enc content =
     (if ABSTRACT_GENERATION_METHOD cfg = ''extractive'' then extractive_abstract cfg enc content
      else extractive_abstract cfg enc content)"

text \<open>
  The loop of \<^verbatim>\<open>AbstractFirstChunker.chunk\<close> over the base chunks; the tokenizer
  takes a string only.
\<close>

fun abstract_loop :: "config \<Rightarrow> 'tok encoding \<Rightarrow> pydict list \<Rightarrow> error + pydict list" where
  "abstract_loop cfg enc [] = Inr []"
| "abstract_loop cfg enc (chunk # chunks) =
     ebind (py_get chunk ''content'') (\<lambda>c.
     ebind (case c of PStr s \<Rightarrow> Inr (generate_abstract cfg enc s) | _ \<Rightarrow> Inl TypeError) (\<lambda>abstract.
     ebind (abstract_loop cfg enc chunks) (\<lambda>rest.
       Inr (chunk(''abstract'' \<mapsto> PStr abstract,
                  ''abstract_tokens'' \<mapsto> PInt (count_tokens enc abstract)) # rest))))"

definition abstract_first_chunk ::
  "config \<Rightarrow> 'tok encoding \<Rightarrow> string \<Rightarrow> pydict \<Rightarrow> error + pydict list" where
  "abstract_first_chunk cfg enc content metadata =
     ebind (layout_aware_chunk cfg enc content metadata) (abstract_loop cfg enc)"

subsection \<open>The factory\<close>

datatype chunker = LayoutAwareChunker | NaiveChunker | AbstractFirstChunker

definition get_chunker :: "config \<Rightarrow> string option \<Rightarrow> error + chunker" where
  "get_chunker cfg strategy =
     (let strategy' = (case strategy of None \<Rightarrow> CHUNKING_STRATEGY cfg | Some s \<Rightarrow> s)
      in if strategy' = ''layout-aware'' then Inr LayoutAwareChunker
         else if strategy' = ''naive'' then Inr NaiveChunker
         else if strategy' = ''abstract-first'' then Inr AbstractFirstChunker
         else Inl ValueError)"

text \<open>
  \<^verbatim>\<open>chunker.chunk(content, metadata)\<close> by the class of the instance; \<open>None\<close> when
  the call does not return.
\<close>

fun chunk :: "chunker \<Rightarrow> config \<Rightarrow> 'tok encoding \<Rightarrow> string \<Rightarrow> pydict \<Rightarrow> (error + pydict list) option" where
  "chunk LayoutAwareChunker cfg enc content metadata = Some (layout_aware_chunk cfg enc content metadata)"
| "chunk NaiveChunker cfg enc content metadata = map_option Inr (naive_chunk cfg enc content metadata)"
| "chunk AbstractFirstChunker cfg enc content metadata = Some (abstract_first_chunk cfg enc content metadata)"

text \<open>
  The abstract in the words of the specification: the terminator nearest the end
  of the text, whichever of the three it is, cuts the abstract when it lies
  beyond the threshold.
\<close>

definition nearest_terminator_abstract :: "string \<Rightarrow> string" where
  "nearest_terminator_abstract abstract =
     (let p = max (rfind abstract ''. '') (max (rfind abstract ''! '') (rfind abstract ''? ''))
      in if fl (real (length abstract) * fl (7 / 10)) < real_of_int p
         then take (nat (p + 1)) abstract else abstract)"

text \<open>
  The abstract as the loop computes it: the first of the terminators period,
  exclamation mark, question mark (each followed by a blank), in this order,
  whose last occurrence lies beyond the threshold, cuts the abstract.
\<close>

definition first_terminator_abstract :: "string \<Rightarrow> string" where
  "first_terminator_abstract abstract =
     (case find (\<lambda>t. fl (real (length abstract) * fl (7 / 10)) < real_of_int (rfind abstract t))
             [''. '', ''! '', ''? ''] of
        None \<Rightarrow> abstract
      | Some t \<Rightarrow> take (nat (rfind abstract t + 1)) abstract)"


section \<open>ingest.py: metadata extraction and indexing\<close>

subsection \<open>MetadataExtractor\<close>

text \<open>
  The blockquote pattern
  \<^verbatim>\<open>>\s*\*\*(.+?):\*\*\s*(.+?)(?:\s*\||$)\<close>, matched as the backtracking engine
  of \<^verbatim>\<open>re\<close> does, without the MULTILINE flag.

  \<open>tail_match\<close> is the closing alternative: whitespace and a pipe, or the end of
  the text (\<^verbatim>\<open>$\<close> also matches before a final line feed). It returns the text
  after the match.
\<close>

definition tail_match :: "string \<Rightarrow> string option" where
  "tail_match s =
     (case dropWhile is_space s of
        c # r \<Rightarrow> if c = CHR ''|'' then Some r
                 else if s = [newline] then Some s else None
      | [] \<Rightarrow> if s = [] \<or> s = [newline] then Some s else None)"

text \<open>
  The second group \<^verbatim>\<open>(.+?)\<close> with what follows it: the shortest run of at least
  one character other than a line feed after which the closing alternative
  matches. The result is the group and the text after the match.
\<close>

fun value_from :: "string \<Rightarrow> (string \<times> string) option" where
  "value_from [] = None"
| "value_from (c # r) =
     (if c = newline then None
      else (case tail_match r of
              Some rest \<Rightarrow> Some ([c], rest)
            | None \<Rightarrow> map_option (\<lambda>(v, rest). (c # v, rest)) (value_from r)))"

text \<open>
  \<^verbatim>\<open>\s*\<close> before the second group: greedy, giving whitespace back one character
  at a time when the rest fails.
\<close>

fun ws_value :: "string \<Rightarrow> (string \<times> string) option" where
  "ws_value [] = None"
| "ws_value (c # r) =
     (if is_space c
      then (case ws_value r of Some res \<Rightarrow> Some res | None \<Rightarrow> value_from (c # r))
      else value_from (c # r))"

text \<open>
  The first group \<^verbatim>\<open>(.+?)\<close> with what follows it: the shortest run of at least
  one character other than a line feed that is followed by \<^verbatim>\<open>:**\<close> and a match
  of the rest. The result is the key group, the value group and the text after
  the match.
\<close>

fun key_from :: "string \<Rightarrow> (string \<times> string \<times> string) option" where
  "key_from [] = None"
| "key_from (c # r) =
     (if c = newline then None
      else (case (if take 3 r = '':**'' then ws_value (drop 3 r) else None) of
              Some (v, rest) \<Rightarrow> Some ([c], v, rest)
            | None \<Rightarrow> map_option (\<lambda>(k, v, rest). (c # k, v, rest)) (key_from r)))"

text \<open>A match that starts at the first character of the text.\<close>

definition match_at :: "string \<Rightarrow> (string \<times> string \<times> string) option" where
  "match_at s =
     (case s of
        [] \<Rightarrow> None
      | c # r \<Rightarrow>
          if c = CHR ''>'' then
            (let r' = dropWhile is_space r
             in if take 2 r' = ''**'' then key_from (drop 2 r') else None)
          else None)"

text \<open>
  \<^verbatim>\<open>re.finditer\<close>: the matches from left to right, each search starting where the
  last match ended. After a match, \<open>skip\<close> counts the characters of that match
  still to pass.
\<close>

fun finditer_from :: "nat \<Rightarrow> string \<Rightarrow> (string \<times> string) list" where
  "finditer_from skip [] = []"
| "finditer_from skip (c # r) =
     (if 0 < skip then finditer_from (skip - 1) r
      else (case match_at (c # r) of
              Some (k, v, rest) \<Rightarrow> (k, v) # finditer_from (length r - length rest) r
            | None \<Rightarrow> finditer_from 0 r))"

definition finditer_blockquote :: "string \<Rightarrow> (string \<times> string) list" where
  "finditer_blockquote content = finditer_from 0 content"

text \<open>\<^verbatim>\<open>s.lower()\<close>, \<^verbatim>\<open>s.upper()\<close> and \<^verbatim>\<open>s.replace(' ', '_')\<close> on ASCII text.\<close>

definition lower_char :: "char \<Rightarrow> char" where
  "lower_char c = (let n = (of_char c :: nat) in if 65 \<le> n \<and> n \<le> 90 then char_of (n + 32) else c)"

definition upper_char :: "char \<Rightarrow> char" where
  "upper_char c = (let n = (of_char c :: nat) in if 97 \<le> n \<and> n \<le> 122 then char_of (n - 32) else c)"

definition lower :: "string \<Rightarrow> string" where
  "lower s = map lower_char s"

definition upper :: "string \<Rightarrow> string" where
  "upper s = map upper_char s"

definition blanks_to_underscores :: "string \<Rightarrow> string" where
  "blanks_to_underscores s = map (\<lambda>c. if c = CHR '' '' then CHR ''_'' else c) s"

text \<open>
  \<^verbatim>\<open>re.search(r'^#\s+(.+)$', content, re.MULTILINE)\<close>: the group of the leftmost
  match. \<open>h1_rest\<close> matches \<^verbatim>\<open>\s+(.+)$\<close>; its flag says whether one whitespace
  character has been taken already. \<open>h1_search\<close> walks the text; its flag says
  whether the position is the start of a line.
\<close>

definition line_group :: "string \<Rightarrow> string option" where
  "line_group s = (let t = takeWhile (\<lambda>c. c \<noteq> newline) s in if t = [] then None else Some t)"

fun h1_rest :: "bool \<Rightarrow> string \<Rightarrow> string option" where
  "h1_rest taken [] = None"
| "h1_rest taken (c # r) =
     (if is_space c
      then (case h1_rest True r of
              Some t \<Rightarrow> Some t
            | None \<Rightarrow> if taken then line_group (c # r) else None)
      else if taken then line_group (c # r) else None)"

fun h1_search :: "bool \<Rightarrow> string \<Rightarrow> string option" where
  "h1_search at_start [] = None"
| "h1_search at_start (c # r) =
     (case (if at_start \<and> c = CHR ''#'' then h1_rest False r else None) of
        Some t \<Rightarrow> Some t
      | None \<Rightarrow> h1_search (c = newline) r)"

text \<open>\<^verbatim>\<open>sub in s\<close>\<close>

definition contains :: "string \<Rightarrow> string \<Rightarrow> bool" where
  "contains s sub = list_ex (\<lambda>i. take (length sub) (drop i s) = sub) [0 ..< Suc (length s)]"

text \<open>\<^verbatim>\<open>_infer_content_type\<close>\<close>

definition infer_content_type :: "string \<Rightarrow> string" where
  "infer_content_type path_str =
     (if contains path_str ''/runbooks/'' then ''runbook''
      else if contains path_str ''/how-to/'' then ''how-to''
      else if contains path_str ''/incidents/'' then ''incident''
      else if contains path_str ''/process/'' then ''process''
      else if contains path_str ''/apps/'' then ''service-overview''
      else if contains path_str ''/event-prep/'' then ''event-prep''
      else ''document'')"

text \<open>The loop over the matches: \<^verbatim>\<open>metadata[key] = value\<close>.\<close>

fun blockquote_loop :: "(string \<times> string) list \<Rightarrow> (string \<rightharpoonup> string) \<Rightarrow> (string \<rightharpoonup> string)" where
  "blockquote_loop [] metadata = metadata"
| "blockquote_loop ((g1, g2) # matches) metadata =
     blockquote_loop matches (metadata(blanks_to_underscores (lower g1) \<mapsto> strip g2))"

text \<open>\<^verbatim>\<open>MetadataExtractor.extract_from_content\<close>\<close>

definition extract_from_content :: "string \<Rightarrow> string \<Rightarrow> (string \<rightharpoonup> string)" where
  "extract_from_content content file_path =
     (let metadata0 = [''source_file'' \<mapsto> file_path,
                       ''content_type'' \<mapsto> infer_content_type file_path];
          metadata1 = blockquote_loop (finditer_blockquote content) metadata0;
          metadata2 = (case h1_search True content of
                         Some t \<Rightarrow> metadata1(''title'' \<mapsto> t)
                       | None \<Rightarrow> metadata1);
          metadata3 = (case metadata2 ''service'' of
                         Some v \<Rightarrow> metadata2(''service_name'' \<mapsto> v)
                       | None \<Rightarrow> metadata2)
      in (case metadata3 ''severity'' of
            Some v \<Rightarrow> metadata3(''severity'' \<mapsto> upper v)
          | None \<Rightarrow> metadata3))"

subsection \<open>DocumentIndexer\<close>

text \<open>
  A markdown file as the indexer sees it: \<^verbatim>\<open>str(file_path)\<close>, \<^verbatim>\<open>file_path.name\<close>,
  \<^verbatim>\<open>file_path.stem\<close>, \<^verbatim>\<open>str(file_path.relative_to(file_path.parent.parent))\<close> and
  the text that reading it returns.
\<close>

record doc_file =
  file_path :: string
  file_name :: string
  file_stem :: string
  file_relative :: string
  file_content :: string

text \<open>
  What indexing does to the world: the files it has opened and read, in order,
  and the calls of \<^verbatim>\<open>collection.add\<close> with their ids, documents and metadata
  (the embeddings are the embedding model's image of the documents).
\<close>

record world =
  files_read :: "string list"
  collection_adds :: "(string list \<times> pyval list \<times> pydict list) list"

definition SUPPORTED_EXTENSIONS :: "string list" where
  "SUPPORTED_EXTENSIONS = [''.md'', ''.markdown'']"

text \<open>
  \<^verbatim>\<open>any(re.match(pattern, f.name) for pattern in config.EXCLUDE_PATTERNS)\<close> with
  the patterns \<^verbatim>\<open>README.md\<close> (the dot matches any character but a line feed) and
  \<^verbatim>\<open>^\.\<close>.
\<close>

definition excluded :: "string \<Rightarrow> bool" where
  "excluded name =
     ((take 6 name = ''README'' \<and> 9 \<le> length name \<and> name ! 6 \<noteq> newline \<and>
       take 2 (drop 7 name) = ''md'') \<or>
      take 1 name = ''.'')"

text \<open>Truthiness of a dictionary value, and \<^verbatim>\<open>chunk.get(key, default)\<close>.\<close>

fun py_truthy :: "pyval \<Rightarrow> bool" where
  "py_truthy (PStr s) = (s \<noteq> [])"
| "py_truthy (PInt n) = (n \<noteq> 0)"
| "py_truthy (PBool b) = b"

definition py_get_default :: "pydict \<Rightarrow> string \<Rightarrow> pyval \<Rightarrow> pyval" where
  "py_get_default d k dflt = (case d k of None \<Rightarrow> dflt | Some v \<Rightarrow> v)"

text \<open>The loop over \<^verbatim>\<open>optional_fields\<close>.\<close>

fun optional_loop :: "string list \<Rightarrow> pydict \<Rightarrow> pydict \<Rightarrow> pydict" where
  "optional_loop [] chunk_dict chunk_metadata = chunk_metadata"
| "optional_loop (field # optional_fields) chunk_dict chunk_metadata =
     optional_loop optional_fields chunk_dict
       (case chunk_dict field of
          Some v \<Rightarrow> if py_truthy v then chunk_metadata(field \<mapsto> PStr (py_format v))
                    else chunk_metadata
        | None \<Rightarrow> chunk_metadata)"

text \<open>
  The loop over \<^verbatim>\<open>enumerate(zip(chunks, embeddings))\<close>: the id, the metadata and
  the document of the chunk at position \<open>i\<close>.
\<close>

fun prepare_loop ::
  "doc_file \<Rightarrow> nat \<Rightarrow> pydict list \<Rightarrow> error + (string list \<times> pyval list \<times> pydict list)" where
  "prepare_loop f i [] = Inr ([], [], [])"
| "prepare_loop f i (chunk_dict # chunks) =
     (let chunk_id = file_stem f @ ''-chunk-'' @ str_nat i;
          chunk_metadata =
            optional_loop [''service_name'', ''environment'', ''severity'', ''owner'', ''title''] chunk_dict
              [''source_file'' \<mapsto> PStr (file_relative f),
               ''section_title'' \<mapsto> py_get_default chunk_dict ''section_title'' (PStr ''''),
               ''heading_level'' \<mapsto> py_get_default chunk_dict ''heading_level'' (PStr ''h2''),
               ''tokens'' \<mapsto> py_get_default chunk_dict ''tokens'' (PInt 0),
               ''chunk_index'' \<mapsto> PInt (int i),
               ''content_type'' \<mapsto> py_get_default chunk_dict ''content_type'' (PStr ''document'')]
      in ebind (py_get chunk_dict ''content'') (\<lambda>document.
         ebind (prepare_loop f (i + 1) chunks) (\<lambda>(ids, documents, metadatas).
           Inr (chunk_id # ids, document # documents, chunk_metadata # metadatas))))"

text \<open>
  \<^verbatim>\<open>index_file\<close>: the result is \<open>None\<close> when the chunker does not return, and
  otherwise the number of chunks or the exception raised, with the world as the
  call leaves it.
\<close>

definition index_file ::
  "config \<Rightarrow> 'tok encoding \<Rightarrow> chunker \<Rightarrow> doc_file \<Rightarrow> world \<Rightarrow> ((error + nat) \<times> world) option" where
  "index_file cfg enc chunker f w =
     (let w1 = w\<lparr>files_read := files_read w @ [file_path f]\<rparr>;
          content = file_content f;
          metadata = extract_from_content content (file_path f)
      in case chunk chunker cfg enc content (map_option PStr \<circ> metadata) of
           None \<Rightarrow> None
         | Some (Inl e) \<Rightarrow> Some (Inl e, w1)
         | Some (Inr chunks) \<Rightarrow>
             if List.null chunks then Some (Inr 0, w1)
             else (case ebind (emap (\<lambda>c. py_get c ''content'') chunks)
                          (\<lambda>chunk_texts. prepare_loop f 0 chunks) of
                     Inl e \<Rightarrow> Some (Inl e, w1)
                   | Inr added \<Rightarrow>
                       Some (Inr (length chunks),
                             w1\<lparr>collection_adds := collection_adds w1 @ [added]\<rparr>)))"

text \<open>The loop of \<^verbatim>\<open>index_directory\<close> over the files, with the running total.\<close>

fun index_files ::
  "config \<Rightarrow> 'tok encoding \<Rightarrow> chunker \<Rightarrow> doc_file list \<Rightarrow> nat \<Rightarrow> world
    \<Rightarrow> ((error + nat) \<times> world) option" where
  "index_files cfg enc chunker [] total_chunks w = Some (Inr total_chunks, w)"
| "index_files cfg enc chunker (f # fs) total_chunks w =
     (case index_file cfg enc chunker f w of
        None \<Rightarrow> None
      | Some (Inl e, w') \<Rightarrow> Some (Inl e, w')
      | Some (Inr n, w') \<Rightarrow> index_files cfg enc chunker fs (total_chunks + n) w')"

text \<open>
  \<^verbatim>\<open>index_directory\<close>: the chunker is made first; \<open>rglob\<close> is the directory
  listing for a pattern.
\<close>

definition index_directory ::
  "config \<Rightarrow> 'tok encoding \<Rightarrow> (string \<Rightarrow> doc_file list) \<Rightarrow> string option \<Rightarrow> world
    \<Rightarrow> ((error + nat) \<times> world) option" where
  "index_directory cfg enc rglob strategy w =
     (case get_chunker cfg strategy of
        Inl e \<Rightarrow> Some (Inl e, w)
      | Inr chunker \<Rightarrow>
          (let md_files = concat (map (\<lambda>ext. rglob (''*'' @ ext)) SUPPORTED_EXTENSIONS);
               md_files' = filter (\<lambda>f. \<not> excluded (file_name f)) md_files
           in index_files cfg enc chunker md_files' 0 w))"


section \<open>query.py: the retrieval scorer\<close>

text \<open>\<^verbatim>\<open>config.DEFAULT_TOP_K = 3\<close>, \<^verbatim>\<open>config.MIN_SIMILARITY_SCORE = 0.3\<close>.\<close>

definition DEFAULT_TOP_K :: int where
  "DEFAULT_TOP_K = 3"

definition MIN_SIMILARITY_SCORE :: real where
  "MIN_SIMILARITY_SCORE = fl (3 / 10)"

text \<open>
  \<^verbatim>\<open>x or default\<close>: \<^verbatim>\<open>None\<close>, \<^verbatim>\<open>0\<close> and \<^verbatim>\<open>0.0\<close> are falsy, every other number
  is truthy.
\<close>

definition py_or :: "'a::zero option \<Rightarrow> 'a \<Rightarrow> 'a" where
  "py_or x d = (case x of None \<Rightarrow> d | Some v \<Rightarrow> if v = 0 then d else v)"

text \<open>\<^verbatim>\<open>similarity = 1 / (1 + distance)\<close>: one rounded addition, one rounded division.\<close>

definition similarity :: "real \<Rightarrow> error + real" where
  "similarity distance =
     (let s = fl (1 + distance)
      in if s = 0 then Inl ZeroDivisionError else Inr (fl (1 / s)))"

text \<open>
  The arguments of \<^verbatim>\<open>collection.query\<close>, and what the index answers for the one
  query embedding: \<^verbatim>\<open>results['ids'][0]\<close>, \<^verbatim>\<open>results['documents'][0]\<close>,
  \<^verbatim>\<open>results['metadatas'][0]\<close> and, when the key is present,
  \<^verbatim>\<open>results['distances'][0]\<close>.
\<close>

record ('v, 'w) index_request =
  query_embeddings :: 'v
  n_results :: int
  where_filter :: "'w option"

record 'm query_results =
  ids :: "string list"
  documents :: "string list"
  metadatas :: "'m list"
  distances :: "real list option"

text \<open>One entry of \<^verbatim>\<open>formatted_results\<close>: the keys id, content, metadata, score.\<close>

record 'm query_result =
  result_id :: string
  result_content :: string
  result_metadata :: 'm
  result_score :: real

text \<open>
  The body of \<^verbatim>\<open>for i in range(len(results['ids'][0]))\<close>, over the indices still
  to visit; \<^verbatim>\<open>continue\<close> goes on with the rest, \<^verbatim>\<open>break\<close> returns.
\<close>

fun query_loop ::
  "'m query_results \<Rightarrow> int \<Rightarrow> real \<Rightarrow> nat list \<Rightarrow> 'm query_result list
    \<Rightarrow> error + 'm query_result list" where
  "query_loop results top_k min_score [] formatted_results = Inr formatted_results"
| "query_loop results top_k min_score (i # rest) formatted_results =
     ebind (case distances results of Some ds \<Rightarrow> py_nth ds i | None \<Rightarrow> Inr 0) (\<lambda>distance.
     ebind (similarity distance) (\<lambda>sim.
       if sim < min_score then query_loop results top_k min_score rest formatted_results
       else
         ebind (py_nth (ids results) i) (\<lambda>rid.
         ebind (py_nth (documents results) i) (\<lambda>doc.
         ebind (py_nth (metadatas results) i) (\<lambda>meta.
           let formatted_results' = formatted_results @
                 [\<lparr>result_id = rid, result_content = doc, result_metadata = meta,
                   result_score = sim\<rparr>]
           in if top_k \<le> int (length formatted_results') then Inr formatted_results'
              else query_loop results top_k min_score rest formatted_results')))))"

definition query_request ::
  "(string \<Rightarrow> 'v) \<Rightarrow> string \<Rightarrow> int option \<Rightarrow> 'w option \<Rightarrow> ('v, 'w) index_request" where
  "query_request embedding_model q top_k filters =
     \<lparr>query_embeddings = embedding_model q,
      n_results = py_or top_k DEFAULT_TOP_K * 2,
      where_filter = filters\<rparr>"

text \<open>
  \<^verbatim>\<open>RAGQueryEngine.query\<close>. The embedding model and the collection are the
  engine's collaborators, here the functions \<open>embedding_model\<close> (\<^verbatim>\<open>self.embedding_model.encode\<close>) and \<open>collection\<close> (\<^verbatim>\<open>collection.query\<close>).
\<close>

definition query ::
  "(string \<Rightarrow> 'v) \<Rightarrow> (('v, 'w) index_request \<Rightarrow> 'm query_results)
    \<Rightarrow> string \<Rightarrow> int option \<Rightarrow> 'w option \<Rightarrow> real option
    \<Rightarrow> error + 'm query_result list" where
  "query embedding_model collection q top_k filters min_score =
     (let top_k' = py_or top_k DEFAULT_TOP_K;
          min_score' = py_or min_score MIN_SIMILARITY_SCORE;
          results = collection (query_request embedding_model q top_k filters)
      in query_loop results top_k' min_score' [0 ..< length (ids results)] [])"

text \<open>
  The query operation in the words of the specification: score every candidate,
  drop those below the threshold, keep the index's order, keep the first \<open>top_k\<close>.
\<close>

definition candidates :: "'m query_results \<Rightarrow> 'm query_result list" where
  "candidates results =
     map (\<lambda>i. \<lparr>result_id = ids results ! i, result_content = documents results ! i,
               result_metadata = metadatas results ! i,
               result_score = fl (1 / fl (1 + (case distances results of
                                                 Some ds \<Rightarrow> ds ! i | None \<Rightarrow> 0)))\<rparr>)
       [0 ..< length (ids results)]"

definition query_spec :: "'m query_results \<Rightarrow> nat \<Rightarrow> real \<Rightarrow> 'm query_result list" where
  "query_spec results k threshold =
     take k (filter (\<lambda>r. \<not> result_score r < threshold) (candidates results))"

text \<open>
  The collaborator's contract (the arrays are aligned by index) and the claim's
  precondition (no distance is negative).
\<close>

definition aligned :: "'m query_results \<Rightarrow> bool" where
  "aligned results =
     (length (documents results) = length (ids results) \<and>
      length (metadatas results) = length (ids results) \<and>
      (case distances results of None \<Rightarrow> True
       | Some ds \<Rightarrow> length ds = length (ids results) \<and> list_all (\<lambda>d. 0 \<le> d) ds))"


section \<open>Exceptions as values\<close>

lemma ebind_Inr [simp]: "ebind (Inr x) f = f x"
  by (simp add: ebind_def)

lemma ebind_Inl [simp]: "ebind (Inl e) f = Inl e"
  by (simp add: ebind_def)


section \<open>Properties of the float model\<close>

lemma powr2_of_int: "(2::real) powr of_int k = 2 powi k"
  by (simp add: powr_real_of_int')

lemma ilog2_bounds: assumes "0 < x" shows "2 powi (ilog2 x) \<le> x \<and> x < 2 powi (ilog2 x + 1)"
proof (cases "1 \<le> x")
  case True
  define n where "n = nat \<lfloor>x\<rfloor>"
  define k where "k = floorlog 2 n"
  have n: "0 < n" using True by (simp add: n_def)
  have b: "2 ^ (k - 1) \<le> n" "n < 2 ^ k"
    using floorlog_bounds [of n 2] n by (simp_all add: k_def)
  have k: "0 < k" using b(2) n by (cases k) auto
  have e: "ilog2 x = int k - 1" using True by (simp add: ilog2_def bitlen_def n_def k_def)
  have nx: "real n \<le> x" "x < real n + 1" using True by (simp_all add: n_def)
  have "(2::real) powi (int k - 1) = 2 ^ (k - 1)"
    using k by (simp add: power_int_def nat_diff_distrib')
  also have "\<dots> \<le> real n" using b(1) by (metis of_nat_le_iff of_nat_numeral of_nat_power)
  finally have lo: "2 powi (ilog2 x) \<le> x" using nx e by simp
  have "real n + 1 \<le> 2 ^ k"
    using b(2) by (metis Suc_leI of_nat_Suc of_nat_le_iff of_nat_numeral of_nat_power add.commute)
  then have "x < 2 ^ k" using nx by linarith
  then have hi: "x < 2 powi (ilog2 x + 1)" using e by (simp add: power_int_def)
  show ?thesis using lo hi by simp
next
  case False
  define y where "y = 1 / x"
  define m where "m = nat (\<lceil>y\<rceil> - 1)"
  define k where "k = floorlog 2 m"
  have y: "1 < y" using False assms by (simp add: y_def)
  then have cy: "2 \<le> \<lceil>y\<rceil>" by linarith
  have m: "0 < m" "real m = of_int \<lceil>y\<rceil> - 1" using cy by (simp_all add: m_def)
  have b: "2 ^ (k - 1) \<le> m" "m < 2 ^ k"
    using floorlog_bounds [of m 2] m(1) by (simp_all add: k_def)
  have k: "0 < k" using b(2) m(1) by (cases k) auto
  have e: "ilog2 x = - int k" using False by (simp add: ilog2_def bitlen_def m_def k_def y_def)
  have "real m + 1 \<le> 2 ^ k"
    using b(2) by (metis Suc_leI of_nat_Suc of_nat_le_iff of_nat_numeral of_nat_power add.commute)
  then have "y \<le> 2 ^ k" using m(2) by linarith
  then have "1 / 2 ^ k \<le> x" using assms by (simp add: y_def field_simps)
  then have lo: "2 powi (ilog2 x) \<le> x" using e by (simp add: power_int_minus divide_simps)
  have "(2::real) ^ (k - 1) \<le> real m"
    using b(1) by (metis of_nat_le_iff of_nat_numeral of_nat_power)
  also have "\<dots> < y" using m(2) by linarith
  finally have "x < 1 / 2 ^ (k - 1)" using assms by (simp add: y_def field_simps)
  also have "1 / (2::real) ^ (k - 1) = 2 powi (- int k + 1)"
  proof -
    have "- int k + 1 = - int (k - 1)" using k by simp
    then show ?thesis by (simp only: power_int_minus power_int_of_nat) (simp add: divide_simps)
  qed
  finally have hi: "x < 2 powi (ilog2 x + 1)" using e by simp
  show ?thesis using lo hi by simp
qed

lemma ilog2_eq: assumes "0 < x" shows "ilog2 x = \<lfloor>log 2 x\<rfloor>"
proof -
  have "\<lfloor>log 2 x\<rfloor> = ilog2 x"
    using assms ilog2_bounds [OF assms] powr2_of_int [of "ilog2 x"] powr2_of_int [of "ilog2 x + 1"]
    by (simp add: floor_log_eq_powr_iff)
  then show ?thesis by simp
qed

lemma fl_exp_log: "0 < x \<Longrightarrow> fl_exp x = max \<lfloor>log 2 x\<rfloor> (- 1022)"
  by (simp add: fl_exp_def ilog2_eq)

lemma round_even_of_int [simp]: "round_even (of_int n) = n"
  by (simp add: round_even_def)

lemma round_even_mono: assumes "x \<le> y" shows "round_even x \<le> round_even y"
proof -
  have fxy: "\<lfloor>x\<rfloor> \<le> \<lfloor>y\<rfloor>" using assms by (rule floor_mono)
  show ?thesis
  proof (cases "\<lfloor>x\<rfloor> = \<lfloor>y\<rfloor>")
    case True
    then show ?thesis using assms unfolding round_even_def Let_def
      by (auto split: if_splits)
  next
    case False
    then have lt: "\<lfloor>x\<rfloor> + 1 \<le> \<lfloor>y\<rfloor>" using fxy by linarith
    have a: "round_even x \<le> \<lfloor>x\<rfloor> + 1" unfolding round_even_def Let_def by auto
    have b: "\<lfloor>y\<rfloor> \<le> round_even y" unfolding round_even_def Let_def by auto
    show ?thesis using a b lt by linarith
  qed
qed

lemma round_even_ge: "of_int n \<le> y \<Longrightarrow> n \<le> round_even y"
  using round_even_mono [of "of_int n" y] by simp

lemma round_even_le: "y \<le> of_int n \<Longrightarrow> round_even y \<le> n"
  using round_even_mono [of y "of_int n"] by simp

lemma fl_ulp_pos [simp]: "0 < fl_ulp x"
  by (simp add: fl_ulp_def)

lemma fl_ulp_nonneg [simp]: "0 \<le> fl_ulp x"
  by (simp add: fl_ulp_def)

lemma round_even_numeral [simp]: "round_even (numeral n) = numeral n"
  using round_even_of_int [of "numeral n"] by simp

lemma pow2_split53: "(2::real) ^ 53 * 2 powi (e - 52) = 2 powi (e + 1)"
proof -
  have "(2::real) powi (e + 1) = 2 powi (53 + (e - 52))" by (simp add: ac_simps)
  also have "\<dots> = 2 powi 53 * 2 powi (e - 52)" by (rule power_int_add) simp
  finally show ?thesis by simp
qed

lemma pow2_split52: "(2::real) ^ 52 * 2 powi (e - 52) = 2 powi e"
proof -
  have "(2::real) powi e = 2 powi (52 + (e - 52))" by simp
  also have "\<dots> = 2 powi 52 * 2 powi (e - 52)" by (rule power_int_add) simp
  finally show ?thesis by simp
qed

lemma fl_exp_mono: assumes "0 < x" "x \<le> y" shows "fl_exp x \<le> fl_exp y"
proof -
  have y: "0 < y" using assms by linarith
  show ?thesis
    unfolding fl_exp_log [OF assms(1)] fl_exp_log [OF y]
    using assms by (intro max.mono floor_mono) auto
qed

lemma fl_exp_upper: assumes "0 < x" shows "x < 2 powi (fl_exp x + 1)"
proof -
  have "log 2 x < of_int (\<lfloor>log 2 x\<rfloor> + 1)" by linarith
  also have "\<dots> \<le> of_int (fl_exp x + 1)" by (simp add: fl_exp_log [OF assms])
  finally have "log 2 x < of_int (fl_exp x + 1)" .
  then have "x < 2 powr of_int (fl_exp x + 1)"
    using assms by (simp add: log_less_iff)
  then show ?thesis using powr2_of_int [of "fl_exp x + 1"] by simp
qed

lemma fl_exp_lower: assumes "0 < x" "- 1022 < fl_exp x" shows "2 powi (fl_exp x) \<le> x"
proof -
  have e: "fl_exp x = \<lfloor>log 2 x\<rfloor>" using assms(2) fl_exp_log [OF assms(1)] by linarith
  have "of_int (fl_exp x) \<le> log 2 x" unfolding e by linarith
  then have "2 powr of_int (fl_exp x) \<le> x" using assms(1) by (simp add: le_log_iff)
  then show ?thesis by (simp add: powr_real_of_int')
qed

lemma fl_exp_eq: assumes "2 powi e \<le> x" "x < 2 powi (e + 1)" "- 1022 \<le> e" shows "fl_exp x = e"
proof -
  have x: "0 < x" using assms(1) by (smt (verit) zero_less_power_int)
  have "\<lfloor>log 2 x\<rfloor> = e"
    using assms x powr2_of_int [of e] powr2_of_int [of "e + 1"]
    by (simp add: floor_log_eq_powr_iff)
  then show ?thesis using assms(3) by (simp add: fl_exp_log [OF x])
qed

lemma fl_pos_eq: "0 < x \<Longrightarrow> fl x = of_int (round_even (x / fl_ulp x)) * fl_ulp x"
  by (simp add: fl_def)

lemma fl_pos_le_pow: assumes "0 < x" shows "fl x \<le> 2 powi (fl_exp x + 1)"
proof -
  have "x / fl_ulp x \<le> 2 powi (fl_exp x + 1) / fl_ulp x"
    using fl_exp_upper [OF assms] by (intro divide_right_mono) simp_all
  also have "2 powi (fl_exp x + 1) / fl_ulp x = 2 powi 53"
    unfolding fl_ulp_def by (simp add: power_int_diff [symmetric])
  also have "\<dots> = of_int (2 ^ 53)" by simp
  finally have "round_even (x / fl_ulp x) \<le> 2 ^ 53" by (rule round_even_le)
  then have "of_int (round_even (x / fl_ulp x)) * fl_ulp x \<le> of_int (2 ^ 53) * fl_ulp x"
    by (intro mult_right_mono) (auto simp: less_imp_le)
  also have "of_int (2 ^ 53) * fl_ulp x = 2 powi 53 * 2 powi (fl_exp x - 52)"
    by (simp add: fl_ulp_def)
  also have "\<dots> = 2 powi (fl_exp x + 1)"
    using pow2_split53 [of "fl_exp x"] by simp
  finally show ?thesis using assms by (simp add: fl_pos_eq)
qed

lemma fl_pos_ge_pow: assumes "0 < x" "- 1022 < fl_exp x" shows "2 powi (fl_exp x) \<le> fl x"
proof -
  have "2 powi (fl_exp x) / fl_ulp x \<le> x / fl_ulp x"
    using fl_exp_lower [OF assms] by (intro divide_right_mono) simp_all
  moreover have "2 powi (fl_exp x) / fl_ulp x = 2 powi 52"
    unfolding fl_ulp_def by (simp add: power_int_diff [symmetric])
  moreover have "(2::real) powi 52 = of_int (2 ^ 52)" by simp
  ultimately have r: "2 ^ 52 \<le> round_even (x / fl_ulp x)" by (metis round_even_ge)
  have "2 powi (fl_exp x) = of_int (2 ^ 52) * fl_ulp x"
    using pow2_split52 [of "fl_exp x"] by (simp add: fl_ulp_def)
  also have "\<dots> \<le> of_int (round_even (x / fl_ulp x)) * fl_ulp x"
    using r by (intro mult_right_mono) simp_all
  finally show ?thesis using assms by (simp add: fl_pos_eq)
qed

lemma fl_mono_pos: assumes "0 < x" "x \<le> y" shows "fl x \<le> fl y"
proof -
  have y: "0 < y" using assms by linarith
  have ee: "fl_exp x \<le> fl_exp y" using assms by (rule fl_exp_mono)
  show ?thesis
  proof (cases "fl_exp x = fl_exp y")
    case True
    then have u: "fl_ulp x = fl_ulp y" by (simp add: fl_ulp_def)
    have "x / fl_ulp y \<le> y / fl_ulp y" using assms by (intro divide_right_mono) simp_all
    then have "round_even (x / fl_ulp y) \<le> round_even (y / fl_ulp y)" by (rule round_even_mono)
    then have "of_int (round_even (x / fl_ulp y)) * fl_ulp y \<le> of_int (round_even (y / fl_ulp y)) * fl_ulp y"
      by (intro mult_right_mono) (auto simp: less_imp_le)
    then show ?thesis using assms y u by (simp add: fl_pos_eq)
  next
    case False
    then have lt: "fl_exp x + 1 \<le> fl_exp y" using ee by linarith
    have ylow: "- 1022 < fl_exp y" using lt unfolding fl_exp_def by linarith
    have "fl x \<le> 2 powi (fl_exp x + 1)" using assms(1) by (rule fl_pos_le_pow)
    also have "\<dots> \<le> 2 powi (fl_exp y)" using lt by (intro power_int_increasing) auto
    also have "\<dots> \<le> fl y" using y ylow by (rule fl_pos_ge_pow)
    finally show ?thesis .
  qed
qed

lemma fl_nonneg: "0 \<le> x \<Longrightarrow> 0 \<le> fl x"
proof -
  assume "0 \<le> x"
  have "0 \<le> round_even (y)" if "0 \<le> y" for y using round_even_ge [of 0 y] that by simp
  then show ?thesis using \<open>0 \<le> x\<close> by (auto simp: fl_def sgn_if)
qed

lemma fl_neg: "fl (- x) = - fl x"
  by (simp add: fl_def sgn_if)

lemma fl_mono: assumes "x \<le> y" shows "fl x \<le> fl y"
proof -
  consider "0 < x" | "x \<le> 0" "0 \<le> y" | "y < 0" by linarith
  then show ?thesis
  proof cases
    case 1 then show ?thesis using assms by (rule fl_mono_pos)
  next
    case 2
    have "fl x \<le> 0" using fl_nonneg [of "- x"] 2(1) by (simp add: fl_neg)
    moreover have "0 \<le> fl y" using 2(2) by (rule fl_nonneg)
    ultimately show ?thesis by linarith
  next
    case 3
    have "fl (- y) \<le> fl (- x)" using 3 assms by (intro fl_mono_pos) auto
    then show ?thesis by (simp add: fl_neg)
  qed
qed

lemma fl_eval: assumes "2 powi e \<le> x" "x < 2 powi (e + 1)" "- 1022 \<le> e"
  shows "fl x = of_int (round_even (x / 2 powi (e - 52))) * 2 powi (e - 52)"
proof -
  have x: "0 < x" using assms(1) by (smt (verit) zero_less_power_int)
  show ?thesis using x fl_exp_eq [OF assms] by (simp add: fl_pos_eq fl_ulp_def)
qed

lemma fl_1: "fl 1 = 1"
  using fl_eval [of 0 1] by (simp add: power_int_minus)


section \<open>The structure parser\<close>

lemma digit_char_inj: assumes "a < 10" "b < 10" "digit_char a = digit_char b" shows "a = b"
proof -
  have "(of_char (digit_char a) :: nat) = (48 + a) mod 256"
    "(of_char (digit_char b) :: nat) = (48 + b) mod 256"
    by (simp_all only: digit_char_def of_char_of)
  then have "(48 + a) mod 256 = (48 + b) mod 256" using assms(3) by simp
  then show ?thesis using assms(1,2) by simp
qed

lemma str_nat_nonempty: "str_nat n \<noteq> []"
  by (subst str_nat.simps) simp

lemma str_nat_inj: "str_nat n = str_nat m \<Longrightarrow> n = m"
proof (induction n arbitrary: m rule: str_nat.induct)
  case (1 n)
  show ?case
  proof (cases "n < 10")
    case n: True
    show ?thesis
    proof (cases "m < 10")
      case True
      then show ?thesis using n "1.prems" digit_char_inj [of n m]
        by (simp add: str_nat.simps [of n] str_nat.simps [of m])
    next
      case False
      then show ?thesis using n "1.prems" str_nat_nonempty [of "m div 10"]
        by (simp add: str_nat.simps [of n] str_nat.simps [of m])
    qed
  next
    case n: False
    show ?thesis
    proof (cases "m < 10")
      case True
      then show ?thesis using n "1.prems" str_nat_nonempty [of "n div 10"]
        by (simp add: str_nat.simps [of n] str_nat.simps [of m])
    next
      case False
      then have eq: "str_nat (n div 10) = str_nat (m div 10)"
        "digit_char (n mod 10) = digit_char (m mod 10)"
        using n "1.prems" by (simp_all add: str_nat.simps [of n] str_nat.simps [of m])
      have "n div 10 = m div 10" using "1.IH" [OF n eq(1)] .
      moreover have "n mod 10 = m mod 10" using eq(2) by (intro digit_char_inj) simp_all
      ultimately show ?thesis by (metis div_mult_mod_eq)
    qed
  qed
qed

lemma sec_name_inj: "sec_name i = sec_name j \<Longrightarrow> i = j"
  by (simp add: sec_name_def str_nat_inj)

lemma find_parent_None:
  "find_parent hs lvl n = None \<longleftrightarrow> (\<forall>j<n. \<not> level (hs ! j) < lvl)"
  by (induction n) (auto simp: less_Suc_eq)

lemma find_parent_Some:
  assumes "find_parent hs lvl n = Some p"
  shows "\<exists>j<n. p = sec_name j \<and> level (hs ! j) < lvl \<and>
           (\<forall>k. j < k \<and> k < n \<longrightarrow> \<not> level (hs ! k) < lvl)"
  using assms
proof (induction n)
  case 0
  then show ?case by simp
next
  case (Suc n)
  show ?case
  proof (cases "level (hs ! n) < lvl")
    case True
    then have "p = sec_name n" using Suc.prems by simp
    then show ?thesis using True by auto
  next
    case False
    then have "find_parent hs lvl n = Some p" using Suc.prems by simp
    then obtain j where j: "j < n" "p = sec_name j" "level (hs ! j) < lvl"
      "\<forall>k. j < k \<and> k < n \<longrightarrow> \<not> level (hs ! k) < lvl"
      using Suc.IH by blast
    have "\<forall>k. j < k \<and> k < Suc n \<longrightarrow> \<not> level (hs ! k) < lvl"
      using j(4) False by (auto simp: less_Suc_eq)
    then show ?thesis using j(1,2,3) by (intro exI [of _ j]) simp
  qed
qed


lemma add_children_fields [simp]:
  "sec_id (add_children ss s) = sec_id s"
  "parent_id (add_children ss s) = parent_id s"
  "sec_level (add_children ss s) = sec_level s"
  "sec_content (add_children ss s) = sec_content s"
  "start_line (add_children ss s) = start_line s"
  "end_line (add_children ss s) = end_line s"
  by (simp_all add: add_children_def)

lemma make_section_fields [simp]:
  "sec_id (make_section ls hs i) = sec_name i"
  "parent_id (make_section ls hs i) = find_parent hs (level (hs ! i)) i"
  "sec_level (make_section ls hs i) = level (hs ! i)"
  "children (make_section ls hs i) = []"
  by (simp_all add: make_section_def Let_def)

lemma hierarchy_length [simp]: "length (build_section_hierarchy content hs) = length hs"
  by (simp add: build_section_hierarchy_def Let_def)

lemma hierarchy_nth:
  assumes "i < length hs"
  shows "build_section_hierarchy content hs ! i =
           add_children (map (make_section (split_char newline content) hs) [0 ..< length hs])
             (make_section (split_char newline content) hs i)"
  using assms by (simp add: build_section_hierarchy_def Let_def)

lemma hierarchy_children:
  assumes "i < length hs"
  shows "children (build_section_hierarchy content hs ! i) =
           map sec_id (filter (\<lambda>s. parent_id s = Some (sec_id (build_section_hierarchy content hs ! i)))
                         (build_section_hierarchy content hs))"
proof -
  let ?raw = "map (make_section (split_char newline content) hs) [0 ..< length hs]"
  have fin: "build_section_hierarchy content hs = map (add_children ?raw) ?raw"
    by (simp add: build_section_hierarchy_def Let_def)
  have "map sec_id (filter (\<lambda>s. parent_id s = Some (sec_name i)) (map (add_children ?raw) ?raw)) =
        map sec_id (filter (\<lambda>s. parent_id s = Some (sec_name i)) ?raw)"
    by (simp add: filter_map comp_def)
  then show ?thesis
    using assms by (simp add: hierarchy_nth fin [symmetric]) (simp add: add_children_def fin)
qed

lemma parent_edges_index:
  assumes "(a, p) \<in> parent_edges (build_section_hierarchy content hs)"
  shows "\<exists>i j. j < i \<and> a = sec_name i \<and> p = sec_name j"
proof -
  obtain s where s: "s \<in> set (build_section_hierarchy content hs)" "parent_id s = Some p" "sec_id s = a"
    using assms by (auto simp: parent_edges_def split: option.splits)
  then obtain i where i: "i < length hs" "s = build_section_hierarchy content hs ! i"
    by (metis in_set_conv_nth hierarchy_length)
  have "find_parent hs (level (hs ! i)) i = Some p" using s(2) i by (simp add: hierarchy_nth)
  then obtain j where "j < i" "p = sec_name j" using find_parent_Some by blast
  moreover have "a = sec_name i" using s(3) i by (simp add: hierarchy_nth)
  ultimately show ?thesis by blast
qed

lemma parent_edges_acyclic: "acyclic (parent_edges (build_section_hierarchy content hs))"
proof -
  define f where "f = the_inv sec_name"
  have inj: "inj sec_name" by (rule injI) (rule sec_name_inj)
  have f: "f (sec_name i) = i" for i unfolding f_def using inj by (rule the_inv_f_f)
  have "parent_edges (build_section_hierarchy content hs) \<subseteq> (inv_image less_than f)\<inverse>"
  proof
    fix e assume e: "e \<in> parent_edges (build_section_hierarchy content hs)"
    obtain a p where ap: "e = (a, p)" by (cases e)
    obtain i j where "j < i" "a = sec_name i" "p = sec_name j"
      using parent_edges_index e ap by blast
    then show "e \<in> (inv_image less_than f)\<inverse>" by (simp add: ap f)
  qed
  moreover have "acyclic ((inv_image less_than f)\<inverse>)"
  proof -
    have "acyclic (inv_image less_than f)" by (intro wf_acyclic wf_inv_image wf_less_than)
    then show ?thesis by (simp only: acyclic_converse)
  qed
  ultimately show ?thesis by (metis acyclic_subset)
qed

lemma hierarchy_ids_distinct: "distinct (map sec_id (build_section_hierarchy content hs))"
proof -
  have "map sec_id (build_section_hierarchy content hs) = map sec_name [0 ..< length hs]"
    by (simp add: build_section_hierarchy_def Let_def comp_def)
  moreover have "distinct (map sec_name [0 ..< length hs])"
    by (simp add: distinct_map inj_on_def sec_name_inj)
  ultimately show ?thesis by simp
qed

text \<open>
  C8. In every section list the structure parser builds, section i has the id
  sec_i and the level of header i; its parent_id, when present, is the id of the
  nearest earlier section of a strictly lower level, and is absent exactly when no
  earlier section has a lower level (a root); its children are exactly the ids of
  the sections whose parent_id is its id, in list order; the ids are distinct and
  the parent/child graph has no cycle, so the hierarchy is a forest.
\<close>

theorem section_hierarchy_forest:
  fixes content :: string and headers :: "header list"
  defines "secs \<equiv> build_section_hierarchy content headers"
  shows "length secs = length headers \<and>
         (\<forall>i < length secs.
            sec_id (secs ! i) = sec_name i \<and> sec_level (secs ! i) = level (headers ! i) \<and>
            (case parent_id (secs ! i) of
               None \<Rightarrow> \<forall>j < i. \<not> sec_level (secs ! j) < sec_level (secs ! i)
             | Some p \<Rightarrow>
                 \<exists>j < i. p = sec_id (secs ! j) \<and> sec_level (secs ! j) < sec_level (secs ! i) \<and>
                   (\<forall>k. j < k \<and> k < i \<longrightarrow> \<not> sec_level (secs ! k) < sec_level (secs ! i))) \<and>
            children (secs ! i) =
              map sec_id (filter (\<lambda>s. parent_id s = Some (sec_id (secs ! i))) secs)) \<and>
         distinct (map sec_id secs) \<and> acyclic (parent_edges secs)"
proof -
  have per: "sec_id (secs ! i) = sec_name i \<and> sec_level (secs ! i) = level (headers ! i) \<and>
            (case parent_id (secs ! i) of
               None \<Rightarrow> \<forall>j < i. \<not> sec_level (secs ! j) < sec_level (secs ! i)
             | Some p \<Rightarrow>
                 \<exists>j < i. p = sec_id (secs ! j) \<and> sec_level (secs ! j) < sec_level (secs ! i) \<and>
                   (\<forall>k. j < k \<and> k < i \<longrightarrow> \<not> sec_level (secs ! k) < sec_level (secs ! i))) \<and>
            children (secs ! i) =
              map sec_id (filter (\<lambda>s. parent_id s = Some (sec_id (secs ! i))) secs)"
    if i: "i < length headers" for i
  proof -
    have lv: "sec_level (secs ! k) = level (headers ! k)" if "k \<le> i" for k
      using that i by (simp add: secs_def hierarchy_nth)
    have idk: "sec_id (secs ! k) = sec_name k" if "k \<le> i" for k
      using that i by (simp add: secs_def hierarchy_nth)
    have par: "parent_id (secs ! i) = find_parent headers (level (headers ! i)) i"
      using i by (simp add: secs_def hierarchy_nth)
    have parent: "(case parent_id (secs ! i) of
               None \<Rightarrow> \<forall>j < i. \<not> sec_level (secs ! j) < sec_level (secs ! i)
             | Some p \<Rightarrow>
                 \<exists>j < i. p = sec_id (secs ! j) \<and> sec_level (secs ! j) < sec_level (secs ! i) \<and>
                   (\<forall>k. j < k \<and> k < i \<longrightarrow> \<not> sec_level (secs ! k) < sec_level (secs ! i)))"
    proof (cases "find_parent headers (level (headers ! i)) i")
      case None
      then have "\<forall>j<i. \<not> level (headers ! j) < level (headers ! i)"
        by (simp add: find_parent_None)
      then show ?thesis using par None lv by simp
    next
      case (Some p)
      obtain j where j: "j < i" "p = sec_name j" "level (headers ! j) < level (headers ! i)"
        "\<forall>k. j < k \<and> k < i \<longrightarrow> \<not> level (headers ! k) < level (headers ! i)"
        using find_parent_Some [OF Some] by blast
      have "p = sec_id (secs ! j) \<and> sec_level (secs ! j) < sec_level (secs ! i) \<and>
            (\<forall>k. j < k \<and> k < i \<longrightarrow> \<not> sec_level (secs ! k) < sec_level (secs ! i))"
        using j lv idk by simp
      then show ?thesis using par Some j(1) by auto
    qed
    show ?thesis
      using parent lv [of i] idk [of i] hierarchy_children [OF i, of content]
      by (simp add: secs_def)
  qed
  show ?thesis
    using per parent_edges_acyclic [of content headers] hierarchy_ids_distinct [of content headers]
    by (simp add: secs_def)
qed

text \<open>
  C8 on the headings \<^verbatim>\<open># A\<close>, \<^verbatim>\<open>## B\<close>, \<^verbatim>\<open>### C\<close>, \<^verbatim>\<open>## D\<close>, \<^verbatim>\<open># E\<close>: A and E are roots,
  B and D are children of A, and C is the child of B.
\<close>

theorem section_hierarchy_forest_witness:
  "map parent_id (build_section_hierarchy ''# A\<newline>## B\<newline>### C\<newline>## D\<newline># E''
      (extract_headers ''# A\<newline>## B\<newline>### C\<newline>## D\<newline># E'')) =
     [None, Some ''sec_0'', Some ''sec_1'', Some ''sec_0'', None] \<and>
   map children (build_section_hierarchy ''# A\<newline>## B\<newline>### C\<newline>## D\<newline># E''
      (extract_headers ''# A\<newline>## B\<newline>### C\<newline>## D\<newline># E'')) =
     [[''sec_1'', ''sec_3''], [''sec_2''], [], [], []] \<and>
   acyclic (parent_edges (build_section_hierarchy ''# A\<newline>## B\<newline>### C\<newline>## D\<newline># E''
      (extract_headers ''# A\<newline>## B\<newline>### C\<newline>## D\<newline># E'')))"
proof -
  let ?doc = "''# A\<newline>## B\<newline>### C\<newline>## D\<newline># E''"
  have a: "map parent_id (build_section_hierarchy ?doc (extract_headers ?doc)) =
      [None, Some ''sec_0'', Some ''sec_1'', Some ''sec_0'', None]"
    by code_simp
  have b: "map children (build_section_hierarchy ?doc (extract_headers ?doc)) =
      [[''sec_1'', ''sec_3''], [''sec_2''], [], [], []]"
    by code_simp
  have c: "acyclic (parent_edges (build_section_hierarchy ?doc (extract_headers ?doc)))"
    using section_hierarchy_forest [of ?doc "extract_headers ?doc"] by blast
  show ?thesis using a b c by simp
qed

text \<open>
  C4. The claim: a section's content runs from its own heading line to the line
  before the next heading. On the four-line document \<^verbatim>\<open># A\<close>, \<^verbatim>\<open>body\<close>,
  \<^verbatim>\<open>## B x\<close>, \<^verbatim>\<open>more\<close> the sections record start_line 1 and 3 (the heading
  lines, counted from 1) and end_line 2 and 4, but the slice
  \<^verbatim>\<open>lines[start_line:end_line]\<close> counts from 0, so the contents are \<^verbatim>\<open>body\<close> and
  \<^verbatim>\<open>more\<close>: the heading lines are left out.
\<close>

theorem section_content_omits_heading_line:
  "split_char newline ''# A\<newline>body\<newline>## B x\<newline>more'' =
     [''# A'', ''body'', ''## B x'', ''more''] \<and>
   map (\<lambda>s. (start_line s, end_line s, sec_content s))
     (build_section_hierarchy ''# A\<newline>body\<newline>## B x\<newline>more''
        (extract_headers ''# A\<newline>body\<newline>## B x\<newline>more'')) =
     [(1, 2, ''body''), (3, 4, ''more'')]"
  by code_simp


section \<open>The chunking strategies\<close>

subsection \<open>The naive chunker\<close>

lemma naive_step_start:
  "snd (naive_step cfg enc metadata tokens st) =
     min (snd st + NAIVE_CHUNK_SIZE cfg) (int (length tokens)) - NAIVE_OVERLAP cfg"
  by (simp add: naive_step_def Let_def)

lemma naive_loop_stuck:
  assumes "naive_loop cfg enc metadata tokens st = Some y"
  shows "0 < NAIVE_OVERLAP cfg \<longrightarrow> \<not> snd st < int (length tokens)"
proof (rule naive_loop.raw_induct
    [where P = "\<lambda>cfg enc metadata tokens st y.
                  0 < NAIVE_OVERLAP cfg \<longrightarrow> \<not> snd st < int (length tokens)",
     OF _ assms])
  fix loop :: "config \<Rightarrow> 'a encoding \<Rightarrow> pydict \<Rightarrow> 'a list \<Rightarrow> pydict list \<times> int \<Rightarrow> pydict list option"
  fix cfg enc metadata tokens st y
  assume IH: "\<And>cfg enc metadata tokens st y. loop cfg enc metadata tokens st = Some y \<Longrightarrow>
      0 < NAIVE_OVERLAP cfg \<longrightarrow> \<not> snd st < int (length tokens)"
  assume body: "(if snd st < int (length tokens)
      then loop cfg enc metadata tokens (naive_step cfg enc metadata tokens st)
      else Some (fst st)) = Some y"
  show "0 < NAIVE_OVERLAP cfg \<longrightarrow> \<not> snd st < int (length tokens)"
  proof (intro impI notI)
    assume ov: "0 < NAIVE_OVERLAP cfg" and lt: "snd st < int (length tokens)"
    have "loop cfg enc metadata tokens (naive_step cfg enc metadata tokens st) = Some y"
      using body lt by simp
    then have "\<not> snd (naive_step cfg enc metadata tokens st) < int (length tokens)"
      using IH ov by blast
    then show False using ov by (simp add: naive_step_start)
  qed
qed

text \<open>
  C1. The claim: with overlap < window the naive chunker terminates, and window
  512 with overlap 50 on 1000 tokens gives exactly the three chunks [0,512),
  [462,974), [924,1000). The loop sets \<^verbatim>\<open>start = end - overlap\<close> with \<^verbatim>\<open>end\<close>
  clipped to the token count, so \<^verbatim>\<open>start\<close> never reaches the token count once
  the overlap is positive: on every document with at least one token the call
  does not return.
\<close>

theorem naive_chunk_never_returns:
  assumes "0 < NAIVE_OVERLAP cfg" and "encode enc content \<noteq> []"
  shows "naive_chunk cfg enc content metadata = None"
proof (cases "naive_chunk cfg enc content metadata")
  case None
  then show ?thesis .
next
  case (Some y)
  then have "\<not> snd (([], 0) :: pydict list \<times> int) < int (length (encode enc content))"
    using naive_loop_stuck assms(1) unfolding naive_chunk_def by blast
  then show ?thesis using assms(2) by simp
qed

lemma naive_loop_exit: "\<not> snd st < int (length tokens) \<Longrightarrow> naive_loop cfg enc metadata tokens st = Some (fst st)"
  by (subst naive_loop.simps) simp

lemma naive_step_ranges:
  "token_ranges (fst (naive_step cfg enc Map.empty tokens st)) =
     token_ranges (fst st) @
       [(Some (PInt (snd st)),
         Some (PInt (min (snd st + NAIVE_CHUNK_SIZE cfg) (int (length tokens)))))]"
  by (simp add: naive_step_def Let_def token_ranges_def)

lemma funpow_4: "(f ^^ 4) x = f (f (f (f x)))"
  by (simp add: numeral_eq_Suc)

text \<open>
  C1 on the specification's example, 1000 tokens with the default window 512 and
  overlap 50: the call does not return; the first three passes append the chunks
  [0,512), [462,974), [924,1000), and the fourth appends [950,1000) and leaves
  \<^verbatim>\<open>start\<close> at 950 again.
\<close>

theorem naive_chunk_never_returns_witness:
  "length (encode char_encoding (replicate 1000 (CHR ''a''))) = 1000 \<and>
   NAIVE_CHUNK_SIZE default_config = 512 \<and> NAIVE_OVERLAP default_config = 50 \<and>
   naive_chunk default_config char_encoding (replicate 1000 (CHR ''a'')) Map.empty = None \<and>
   token_ranges (fst ((naive_step default_config char_encoding Map.empty
      (encode char_encoding (replicate 1000 (CHR ''a''))) ^^ 4) ([], 0))) =
     [(Some (PInt 0), Some (PInt 512)), (Some (PInt 462), Some (PInt 974)),
      (Some (PInt 924), Some (PInt 1000)), (Some (PInt 950), Some (PInt 1000))]"
proof -
  have len: "length (encode char_encoding (replicate 1000 (CHR ''a''))) = 1000"
    by (simp add: char_encoding_def)
  have cfg: "NAIVE_CHUNK_SIZE default_config = 512" "NAIVE_OVERLAP default_config = 50"
    by (simp_all add: default_config_def)
  have ne: "encode char_encoding (replicate 1000 (CHR ''a'')) \<noteq> []"
    using len by (metis length_0_conv zero_neq_numeral)
  have ov: "0 < NAIVE_OVERLAP default_config" by (simp only: cfg)
  have a: "naive_chunk default_config char_encoding (replicate 1000 (CHR ''a'')) Map.empty = None"
    using ov ne by (rule naive_chunk_never_returns)
  have b: "token_ranges (fst ((naive_step default_config char_encoding Map.empty
      (encode char_encoding (replicate 1000 (CHR ''a''))) ^^ 4) ([], 0))) =
     [(Some (PInt 0), Some (PInt 512)), (Some (PInt 462), Some (PInt 974)),
      (Some (PInt 924), Some (PInt 1000)), (Some (PInt 950), Some (PInt 1000))]"
    unfolding funpow_4 naive_step_ranges naive_step_start len cfg
    by (simp add: token_ranges_def)
  show ?thesis by (intro conjI len cfg a b)
qed

subsection \<open>The layout-aware chunker\<close>

text \<open>
  A chunk whose tokens entry is an integer, whose content is a string and which
  has a section title; metadata that sets none of these three keys.
\<close>

definition plain_chunk :: "pydict \<Rightarrow> bool" where
  "plain_chunk c = ((\<exists>n. c ''tokens'' = Some (PInt n)) \<and> (\<exists>s. c ''content'' = Some (PStr s)) \<and>
                    (\<exists>v. c ''section_title'' = Some v))"

definition plain_metadata :: "pydict \<Rightarrow> bool" where
  "plain_metadata metadata =
     (metadata ''tokens'' = None \<and> metadata ''content'' = None \<and> metadata ''section_title'' = None)"

lemma plain_new_chunk:
  assumes "plain_metadata metadata"
  shows "plain_chunk ([''content'' \<mapsto> PStr a, ''section_title'' \<mapsto> PStr b,
           ''heading_level'' \<mapsto> PStr h, ''tokens'' \<mapsto> PInt n, ''chunk_index'' \<mapsto> PInt i] ++ metadata)"
  using assms by (simp add: plain_chunk_def plain_metadata_def map_add_def)

lemma h3_loop_plain:
  assumes "plain_metadata metadata" and "list_all plain_chunk chunks"
  shows "list_all plain_chunk (h3_loop enc metadata t subs chunks)"
  using assms(2)
proof (induction subs arbitrary: chunks)
  case Nil
  then show ?case by simp
next
  case (Cons sub subs)
  have "list_all plain_chunk
      (chunks @ [[''content'' \<mapsto> PStr (part_content sub),
         ''section_title'' \<mapsto> PStr (t @ '' - '' @ part_title sub),
         ''heading_level'' \<mapsto> PStr ''h3'', ''tokens'' \<mapsto> PInt (count_tokens enc (part_content sub)),
         ''chunk_index'' \<mapsto> PInt (int (length chunks))] ++ metadata])"
    using Cons.prems plain_new_chunk [OF assms(1)] by simp
  then show ?case using Cons.IH by simp
qed

lemma h2_loop_plain:
  assumes "plain_metadata metadata" and "list_all plain_chunk chunks"
  shows "list_all plain_chunk (h2_loop cfg enc metadata secs chunks)"
  using assms(2)
proof (induction secs arbitrary: chunks)
  case Nil
  then show ?case by simp
next
  case (Cons sec secs)
  have one: "list_all plain_chunk
      (chunks @ [[''content'' \<mapsto> PStr (part_content sec), ''section_title'' \<mapsto> PStr (part_title sec),
         ''heading_level'' \<mapsto> PStr ''h2'', ''tokens'' \<mapsto> PInt (count_tokens enc (part_content sec)),
         ''chunk_index'' \<mapsto> PInt (int (length chunks))] ++ metadata])"
    using Cons.prems plain_new_chunk [OF assms(1)] by simp
  show ?case
    using Cons.IH [OF Cons.prems] Cons.IH [OF one]
      Cons.IH [OF h3_loop_plain [OF assms(1) Cons.prems, of enc "part_title sec"
          "split_by_h3 (part_content sec)"]]
    by (simp add: Let_def)
qed

lemma merge_small_chunks_plain:
  assumes "list_all plain_chunk chunks"
  shows "\<exists>out. merge_small_chunks cfg enc chunks = Inr out \<and> list_all plain_chunk out"
  using assms
proof (induction cfg enc chunks rule: merge_small_chunks.induct)
  case (1 cfg enc)
  then show ?case by simp
next
  case (2 cfg enc current)
  then show ?case by (auto simp: plain_chunk_def py_get_def)
next
  case (3 cfg enc current next_chunk rest)
  obtain n s v where cur: "current ''tokens'' = Some (PInt n)" "current ''content'' = Some (PStr s)"
    "current ''section_title'' = Some v"
    using "3.prems" by (auto simp: plain_chunk_def)
  obtain s' v' where nxt: "next_chunk ''content'' = Some (PStr s')" "next_chunk ''section_title'' = Some v'"
    using "3.prems" by (auto simp: plain_chunk_def)
  show ?case
  proof (cases "n < LAYOUT_AWARE_MIN_TOKENS cfg")
    case True
    have r: "list_all plain_chunk rest" using "3.prems" by simp
    obtain out where out: "merge_small_chunks cfg enc rest = Inr out" "list_all plain_chunk out"
      using "3.IH"(1) [OF TrueI r] by blast
    have "plain_chunk (current(''content'' \<mapsto> PStr (s @ [newline, newline] @ s'),
        ''section_title'' \<mapsto> PStr (py_format v @ '' + '' @ py_format v'),
        ''tokens'' \<mapsto> PInt (count_tokens enc (s @ [newline, newline] @ s')),
        ''merged'' \<mapsto> PBool True))"
      by (simp add: plain_chunk_def)
    then show ?thesis using cur nxt True out by (simp add: py_get_def)
  next
    case False
    have r: "list_all plain_chunk (next_chunk # rest)" using "3.prems" by simp
    have nf: "\<not> False" by simp
    obtain out where out: "merge_small_chunks cfg enc (next_chunk # rest) = Inr out"
      "list_all plain_chunk out"
      using "3.IH"(2) [OF nf r] by blast
    then show ?thesis using cur False "3.prems" by (simp add: py_get_def)
  qed
qed

lemma layout_aware_chunk_plain:
  assumes "plain_metadata metadata"
  shows "\<exists>chunks. layout_aware_chunk cfg enc content metadata = Inr chunks \<and> list_all plain_chunk chunks"
proof -
  have "list_all plain_chunk (h2_loop cfg enc metadata (split_by_h2 content) [])"
    using assms by (intro h2_loop_plain) simp_all
  then show ?thesis
    using merge_small_chunks_plain [of "h2_loop cfg enc metadata (split_by_h2 content) []" cfg enc]
    by (auto simp: layout_aware_chunk_def Let_def)
qed

text \<open>
  C2. The claim: after the merge pass every chunk's chunk_index is its position
  in the returned list. On a document of three level-2 sections of 65 tokens
  each (below the minimum of 200), the first two are merged and keep the first
  one's chunk_index 0, and the third is returned at position 1 with the
  chunk_index 2 it was given before the merge. The indexer's own loop over the
  same chunks stores the positions 0 and 1.
\<close>

theorem merged_chunk_index_is_stale:
  "map_sum id (map (\<lambda>c. (c ''chunk_index'', c ''section_title'', c ''tokens'', c ''merged'')))
     (layout_aware_chunk default_config char_encoding
        (''## A\<newline>'' @ replicate 60 (CHR ''a'') @ ''\<newline>## B\<newline>'' @ replicate 60 (CHR ''b'') @
         ''\<newline>## C\<newline>'' @ replicate 60 (CHR ''c'')) Map.empty) =
   Inr [(Some (PInt 0), Some (PStr ''A + B''), Some (PInt 132), Some (PBool True)),
        (Some (PInt 2), Some (PStr ''C''), Some (PInt 65), None)] \<and>
   map_sum id (\<lambda>(ids, documents, metadatas). (ids, map (\<lambda>m. m ''chunk_index'') metadatas))
     (ebind (layout_aware_chunk default_config char_encoding
        (''## A\<newline>'' @ replicate 60 (CHR ''a'') @ ''\<newline>## B\<newline>'' @ replicate 60 (CHR ''b'') @
         ''\<newline>## C\<newline>'' @ replicate 60 (CHR ''c'')) Map.empty)
        (prepare_loop \<lparr>file_path = ''wiki/doc.md'', file_name = ''doc.md'', file_stem = ''doc'',
                        file_relative = ''wiki/doc.md'', file_content = []\<rparr> 0)) =
   Inr ([''doc-chunk-0'', ''doc-chunk-1''], [Some (PInt 0), Some (PInt 1)])"
  by code_simp

subsection \<open>The abstract-first chunker\<close>

lemma sentence_loop_first: "sentence_loop [''. '', ''! '', ''? ''] a = first_terminator_abstract a"
  by (simp add: first_terminator_abstract_def Let_def)

lemma extractive_abstract_eq:
  "extractive_abstract cfg enc s =
     first_terminator_abstract (decode enc (py_slice (encode enc s) 0 (ABSTRACT_MAX_TOKENS cfg)))"
  by (simp only: extractive_abstract_def Let_def sentence_loop_first)

lemma abstract_loop_chunks:
  assumes "abstract_loop cfg enc cs = Inr out" and "c \<in> set out"
  shows "\<exists>s. c ''content'' = Some (PStr s) \<and>
           c ''abstract'' = Some (PStr (extractive_abstract cfg enc s)) \<and>
           c ''abstract_tokens'' = Some (PInt (count_tokens enc (extractive_abstract cfg enc s)))"
  using assms
proof (induction cs arbitrary: out)
  case Nil
  then show ?case by simp
next
  case (Cons chunk chunks)
  obtain s where s: "chunk ''content'' = Some (PStr s)"
    using Cons.prems(1)
    by (auto simp: py_get_def ebind_def split: option.splits sum.splits pyval.splits)
  obtain rest where rest: "abstract_loop cfg enc chunks = Inr rest"
    and out: "out = chunk(''abstract'' \<mapsto> PStr (extractive_abstract cfg enc s),
        ''abstract_tokens'' \<mapsto> PInt (count_tokens enc (extractive_abstract cfg enc s))) # rest"
    using Cons.prems(1) s
    by (auto simp: py_get_def ebind_def generate_abstract_def split: sum.splits)
  show ?case
  proof (cases "c \<in> set rest")
    case True
    then show ?thesis using Cons.IH [OF rest] by blast
  next
    case False
    then have "c = chunk(''abstract'' \<mapsto> PStr (extractive_abstract cfg enc s),
        ''abstract_tokens'' \<mapsto> PInt (count_tokens enc (extractive_abstract cfg enc s)))"
      using Cons.prems(2) out by simp
    then show ?thesis using s by simp
  qed
qed

lemma py_slice_prefix: "0 \<le> n \<Longrightarrow> py_slice xs 0 n = take (nat n) xs"
  by (simp add: py_slice_def Let_def min_def)

lemma abstract_loop_plain:
  assumes "list_all plain_chunk chunks"
  shows "\<exists>out. abstract_loop cfg enc chunks = Inr out"
  using assms by (induction chunks) (auto simp: plain_chunk_def py_get_def)

lemma abstract_first_chunk_plain:
  assumes "plain_metadata metadata"
  shows "\<exists>chunks. abstract_first_chunk cfg enc content metadata = Inr chunks"
  using layout_aware_chunk_plain [OF assms, of cfg enc content] abstract_loop_plain
  by (fastforce simp: abstract_first_chunk_def)

text \<open>
  C5, as amended: with metadata that sets none of the keys tokens, content and
  section_title the Abstract-First strategy returns its chunks without raising;
  and every chunk it returns holds a string content and, as its abstract, the
  decoded first N tokens of that content (N = ABSTRACT_MAX_TOKENS), cut just
  after the first character of the first of the terminators period, exclamation
  mark, question mark (each followed by a blank; tried in this order) whose last
  occurrence starts at an index greater than the float product of the abstract's
  length and 0.7, and left whole when none of the three qualifies.
\<close>

theorem abstract_first_cuts_at_first_terminator:
  assumes "0 \<le> ABSTRACT_MAX_TOKENS cfg"
  shows "(plain_metadata metadata \<longrightarrow>
            (\<exists>chunks. abstract_first_chunk cfg enc content metadata = Inr chunks)) \<and>
         (\<forall>chunks c. abstract_first_chunk cfg enc content metadata = Inr chunks \<and> c \<in> set chunks \<longrightarrow>
            (\<exists>s. c ''content'' = Some (PStr s) \<and>
                 c ''abstract'' = Some (PStr (first_terminator_abstract
                    (decode enc (take (nat (ABSTRACT_MAX_TOKENS cfg)) (encode enc s))))) \<and>
                 c ''abstract_tokens'' = Some (PInt (count_tokens enc (first_terminator_abstract
                    (decode enc (take (nat (ABSTRACT_MAX_TOKENS cfg)) (encode enc s))))))))"
proof (intro conjI impI allI)
  assume "plain_metadata metadata"
  then show "\<exists>chunks. abstract_first_chunk cfg enc content metadata = Inr chunks"
    by (rule abstract_first_chunk_plain)
next
  fix chunks c
  assume a: "abstract_first_chunk cfg enc content metadata = Inr chunks \<and> c \<in> set chunks"
  then obtain base where "abstract_loop cfg enc base = Inr chunks"
    by (auto simp: abstract_first_chunk_def ebind_def split: sum.splits)
  then show "\<exists>s. c ''content'' = Some (PStr s) \<and>
                 c ''abstract'' = Some (PStr (first_terminator_abstract
                    (decode enc (take (nat (ABSTRACT_MAX_TOKENS cfg)) (encode enc s))))) \<and>
                 c ''abstract_tokens'' = Some (PInt (count_tokens enc (first_terminator_abstract
                    (decode enc (take (nat (ABSTRACT_MAX_TOKENS cfg)) (encode enc s))))))"
    using abstract_loop_chunks [of cfg enc base chunks c] a
    by (auto simp: extractive_abstract_eq py_slice_prefix [OF assms])
qed

text \<open>
  C5. The claim: the abstract is cut at the terminator nearest the end of the
  text when that terminator lies past 70% of the length. On a 70-character
  section with a period at index 50 and an exclamation mark at index 62, both
  past the threshold 49, the chunk's abstract ends at the period, not at the
  nearer exclamation mark.
\<close>

theorem abstract_not_cut_at_nearest_terminator:
  "map_sum id (map (\<lambda>c. (c ''content'', c ''abstract'')))
     (abstract_first_chunk default_config char_encoding
        ''## A\<newline>aaaaaaaaaaaaaaaaaaaaaaaaaaaaaaaaaaaaaaaaaaaaa. bbbbbbbbbb! cccccc'' Map.empty) =
     Inr [(Some (PStr ''## A\<newline>aaaaaaaaaaaaaaaaaaaaaaaaaaaaaaaaaaaaaaaaaaaaa. bbbbbbbbbb! cccccc''),
           Some (PStr ''## A\<newline>aaaaaaaaaaaaaaaaaaaaaaaaaaaaaaaaaaaaaaaaaaaaa.''))] \<and>
   nearest_terminator_abstract (decode char_encoding (take 200 (encode char_encoding
        ''## A\<newline>aaaaaaaaaaaaaaaaaaaaaaaaaaaaaaaaaaaaaaaaaaaaa. bbbbbbbbbb! cccccc''))) =
     ''## A\<newline>aaaaaaaaaaaaaaaaaaaaaaaaaaaaaaaaaaaaaaaaaaaaa. bbbbbbbbbb!''"
  by code_simp

text \<open>
  The amended C5 on a 70-character section whose only terminators are a question
  mark at index 50 and an exclamation mark at index 62: the exclamation mark is
  tried before the question mark, and the abstract ends there.
\<close>

theorem abstract_first_cuts_at_first_terminator_witness:
  "first_terminator_abstract (decode char_encoding (take 200 (encode char_encoding
      ''## A\<newline>aaaaaaaaaaaaaaaaaaaaaaaaaaaaaaaaaaaaaaaaaaaaa? bbbbbbbbbb! cccccc''))) =
     ''## A\<newline>aaaaaaaaaaaaaaaaaaaaaaaaaaaaaaaaaaaaaaaaaaaaa? bbbbbbbbbb!'' \<and>
   map_sum id (map (\<lambda>c. (c ''content'', c ''abstract'', c ''abstract_tokens'')))
      (abstract_first_chunk default_config char_encoding
         ''## A\<newline>aaaaaaaaaaaaaaaaaaaaaaaaaaaaaaaaaaaaaaaaaaaaa? bbbbbbbbbb! cccccc'' Map.empty) =
      Inr [(Some (PStr ''## A\<newline>aaaaaaaaaaaaaaaaaaaaaaaaaaaaaaaaaaaaaaaaaaaaa? bbbbbbbbbb! cccccc''),
            Some (PStr ''## A\<newline>aaaaaaaaaaaaaaaaaaaaaaaaaaaaaaaaaaaaaaaaaaaaa? bbbbbbbbbb!''),
            Some (PInt 63))]"
proof -
  let ?doc = "''## A\<newline>aaaaaaaaaaaaaaaaaaaaaaaaaaaaaaaaaaaaaaaaaaaaa? bbbbbbbbbb! cccccc''"
  let ?abs = "''## A\<newline>aaaaaaaaaaaaaaaaaaaaaaaaaaaaaaaaaaaaaaaaaaaaa? bbbbbbbbbb!''"
  have ev: "map_sum id (map (\<lambda>c. (c ''content'', c ''abstract'', c ''abstract_tokens'')))
      (abstract_first_chunk default_config char_encoding ?doc Map.empty) =
      Inr [(Some (PStr ?doc), Some (PStr ?abs), Some (PInt 63))]"
    by code_simp
  have n: "0 \<le> ABSTRACT_MAX_TOKENS default_config" "nat (ABSTRACT_MAX_TOKENS default_config) = 200"
    by (simp_all add: default_config_def)
  note inst = abstract_first_cuts_at_first_terminator
    [OF n(1), of Map.empty char_encoding ?doc]
  have "plain_metadata Map.empty" by (simp add: plain_metadata_def)
  then obtain chunks where
    chunks: "abstract_first_chunk default_config char_encoding ?doc Map.empty = Inr chunks"
    using inst by blast
  then obtain c where c: "chunks = [c]"
    and fields: "c ''content'' = Some (PStr ?doc)" "c ''abstract'' = Some (PStr ?abs)"
    using ev by auto
  have "\<exists>s. c ''content'' = Some (PStr s) \<and>
          c ''abstract'' = Some (PStr (first_terminator_abstract
            (decode char_encoding (take (nat (ABSTRACT_MAX_TOKENS default_config))
               (encode char_encoding s)))))"
    using inst chunks c by auto
  then have "first_terminator_abstract (decode char_encoding (take 200 (encode char_encoding ?doc))) = ?abs"
    using fields n(2) by auto
  then show ?thesis using ev by simp
qed

lemma threshold_rounds_down: "fl (real 90 * fl (7 / 10)) < 63 \<and> \<not> (7 / 10 * real 90 < 63)"
  by code_simp


section \<open>Metadata extraction and indexing\<close>

text \<open>
  C3. The claim: the line \<^verbatim>\<open>> **Service:** checkout | **Severity:** SEV2\<close> yields
  service, service_name and severity, one field per pair of the pipe-delimited
  continuation. Every match of the pattern starts at a quote marker, and the
  first match ends at the pipe, so the line has the single match (Service,
  checkout): the fields service and service_name are set and severity is not.
  The same holds with the line inside a longer document.
\<close>

theorem blockquote_continuation_not_extracted:
  "finditer_blockquote ''> **Service:** checkout | **Severity:** SEV2'' =
     [(''Service'', ''checkout'')] \<and>
   map (extract_from_content ''> **Service:** checkout | **Severity:** SEV2''
          ''wiki/runbooks/checkout.md'')
     [''service'', ''service_name'', ''severity'', ''content_type''] =
     [Some ''checkout'', Some ''checkout'', None, Some ''runbook''] \<and>
   map (extract_from_content
          ''# Checkout\<newline>\<newline>> **Service:** checkout | **Severity:** SEV2\<newline>\<newline>Text.''
          ''wiki/runbooks/checkout.md'')
     [''service'', ''service_name'', ''severity'', ''title''] =
     [Some ''checkout'', Some ''checkout'', None, Some ''Checkout'']"
  by code_simp

text \<open>
  C9. For every strategy name other than layout-aware, naive and
  abstract-first the factory raises ValueError, and \<^verbatim>\<open>index_directory\<close> then
  raises it with the world untouched: no file has been read and nothing has
  been added to the collection. Each of the three names gives the chunker of
  that name.
\<close>

theorem unknown_strategy_fails_before_any_document:
  assumes "s \<noteq> ''layout-aware''" and "s \<noteq> ''naive''" and "s \<noteq> ''abstract-first''"
  shows "get_chunker cfg (Some s) = Inl ValueError \<and>
         index_directory cfg enc rglob (Some s) w = Some (Inl ValueError, w) \<and>
         get_chunker cfg (Some ''layout-aware'') = Inr LayoutAwareChunker \<and>
         get_chunker cfg (Some ''naive'') = Inr NaiveChunker \<and>
         get_chunker cfg (Some ''abstract-first'') = Inr AbstractFirstChunker"
  using assms by (simp add: get_chunker_def index_directory_def)

text \<open>
  C9 on the name \<^verbatim>\<open>semantic\<close>, with one markdown file in the directory and a
  world in which nothing has been read: the error leaves the world as it was,
  whereas the same call with the name \<^verbatim>\<open>layout-aware\<close> reads the file.
\<close>

theorem unknown_strategy_fails_before_any_document_witness:
  "get_chunker default_config (Some ''semantic'') = Inl ValueError \<and>
   index_directory default_config char_encoding
     (\<lambda>pattern. if pattern = ''*.md''
        then [\<lparr>file_path = ''wiki/runbooks/a.md'', file_name = ''a.md'', file_stem = ''a'',
               file_relative = ''runbooks/a.md'', file_content = ''## A''\<rparr>]
        else [])
     (Some ''semantic'') \<lparr>files_read = [], collection_adds = []\<rparr> =
     Some (Inl ValueError, \<lparr>files_read = [], collection_adds = []\<rparr>) \<and>
   map_option (\<lambda>(r, w). (r, files_read w, length (collection_adds w)))
     (index_directory default_config char_encoding
        (\<lambda>pattern. if pattern = ''*.md''
           then [\<lparr>file_path = ''wiki/runbooks/a.md'', file_name = ''a.md'', file_stem = ''a'',
                  file_relative = ''runbooks/a.md'', file_content = ''## A''\<rparr>]
           else [])
        (Some ''layout-aware'') \<lparr>files_read = [], collection_adds = []\<rparr>) =
     Some (Inr 0, [''wiki/runbooks/a.md''], 0)"
proof -
  let ?rglob = "\<lambda>pattern. if pattern = ''*.md''
        then [\<lparr>file_path = ''wiki/runbooks/a.md'', file_name = ''a.md'', file_stem = ''a'',
               file_relative = ''runbooks/a.md'', file_content = ''## A''\<rparr>]
        else []"
  have ok: "map_option (\<lambda>(r, w). (r, files_read w, length (collection_adds w)))
     (index_directory default_config char_encoding ?rglob
        (Some ''layout-aware'') \<lparr>files_read = [], collection_adds = []\<rparr>) =
     Some (Inr 0, [''wiki/runbooks/a.md''], 0)"
    by code_simp
  show ?thesis
    using ok unknown_strategy_fails_before_any_document [of "''semantic''" default_config
        char_encoding ?rglob "\<lparr>files_read = [], collection_adds = []\<rparr>"]
    by simp
qed


section \<open>The retrieval scorer\<close>

lemma fl_ge_1: assumes "1 \<le> x" shows "1 \<le> fl x"
  using fl_mono [OF assms] by (simp add: fl_1)

lemma fl_le_1: assumes "x \<le> 1" shows "fl x \<le> 1"
  using fl_mono [OF assms] by (simp add: fl_1)

lemma similarity_nonneg: assumes "0 \<le> d" shows "similarity d = Inr (fl (1 / fl (1 + d)))"
proof -
  have "1 \<le> fl (1 + d)" using assms by (intro fl_ge_1) simp
  then show ?thesis by (simp add: similarity_def Let_def)
qed

lemma fl_pos_of_ge_min: assumes "2 powi (- 1074) \<le> x" shows "0 < fl x"
proof -
  have x: "0 < x" using assms by (smt (verit) zero_less_power_int)
  have "fl_ulp x \<le> x"
  proof (cases "fl_exp x = - 1022")
    case True
    then show ?thesis using assms by (simp add: fl_ulp_def)
  next
    case False
    then have low: "- 1022 < fl_exp x" unfolding fl_exp_def by linarith
    have "fl_ulp x \<le> 2 powi (fl_exp x)"
      unfolding fl_ulp_def by (intro power_int_increasing) auto
    also have "\<dots> \<le> x" using x low by (rule fl_exp_lower)
    finally show ?thesis .
  qed
  then have "of_int 1 \<le> x / fl_ulp x" by (simp add: le_divide_eq)
  then have "1 \<le> round_even (x / fl_ulp x)" by (rule round_even_ge)
  then have "0 < of_int (round_even (x / fl_ulp x)) * fl_ulp x" by simp
  then show ?thesis using x by (simp add: fl_pos_eq)
qed

lemma fl_exp_le: assumes "0 < x" "x < 2 powi (e + 1)" "- 1022 \<le> e" shows "fl_exp x \<le> e"
proof -
  have "log 2 x < of_int (e + 1)"
    using assms(1,2) powr2_of_int [of "e + 1"] by (simp add: log_less_iff)
  then have "\<lfloor>log 2 x\<rfloor> \<le> e" by linarith
  then show ?thesis using assms(3) by (simp add: fl_exp_log [OF assms(1)])
qed

lemma MAX_DOUBLE_bound: "1 + MAX_DOUBLE < 2 powi 1024"
proof -
  have "1 + MAX_DOUBLE < (2::real) ^ 1024" unfolding MAX_DOUBLE_def by simp
  then show ?thesis by simp
qed

lemma fl_sum_bound: assumes "0 \<le> d" "d \<le> MAX_DOUBLE" shows "fl (1 + d) \<le> 2 powi 1024"
proof -
  have pos: "0 < 1 + d" using assms by simp
  have lt: "1 + d < 2 powi (1023 + 1)" using assms MAX_DOUBLE_bound by simp
  have "fl_exp (1 + d) \<le> 1023" using pos lt by (rule fl_exp_le) simp
  then have "(2::real) powi (fl_exp (1 + d) + 1) \<le> 2 powi 1024"
    by (intro power_int_increasing) auto
  then show ?thesis using fl_pos_le_pow [OF pos] by linarith
qed

lemma score_pos: assumes "0 \<le> d" "d \<le> MAX_DOUBLE" shows "0 < fl (1 / fl (1 + d))"
proof -
  have one: "1 \<le> fl (1 + d)" using assms by (intro fl_ge_1) simp
  have "(2::real) powi (- 1074) \<le> 2 powi (- 1024)"
    by (intro power_int_increasing) auto
  also have "\<dots> = 1 / 2 powi 1024" by (simp add: power_int_minus divide_simps)
  also have "\<dots> \<le> 1 / fl (1 + d)"
    using one fl_sum_bound [OF assms] by (intro divide_left_mono) auto
  finally show ?thesis by (rule fl_pos_of_ge_min)
qed

lemma score_le_1: assumes "0 \<le> d" shows "fl (1 / fl (1 + d)) \<le> 1"
proof -
  have "1 \<le> fl (1 + d)" using assms by (intro fl_ge_1) simp
  then show ?thesis by (intro fl_le_1) simp
qed

lemma score_antimono: assumes "0 \<le> d1" "d1 \<le> d2"
  shows "fl (1 / fl (1 + d2)) \<le> fl (1 / fl (1 + d1))"
proof -
  have a: "1 \<le> fl (1 + d1)" using assms by (intro fl_ge_1) simp
  have b: "fl (1 + d1) \<le> fl (1 + d2)" using assms by (intro fl_mono) simp
  have "1 / fl (1 + d2) \<le> 1 / fl (1 + d1)" using a b by (intro divide_left_mono) auto
  then show ?thesis by (rule fl_mono)
qed

lemma fl_tiny_sum: "fl (1 + 1 / 2 ^ 60) = 1"
proof -
  have "fl (1 + 1 / 2 ^ 60) =
      of_int (round_even ((1 + 1 / 2 ^ 60) / 2 powi (0 - 52))) * 2 powi (0 - 52)"
    by (rule fl_eval) simp_all
  also have "round_even ((1 + 1 / 2 ^ 60) / 2 powi (0 - 52)) = 2 ^ 52"
    by (simp add: round_even_def Let_def power_int_minus)
  finally show ?thesis by (simp add: power_int_minus)
qed

lemma fl_pow2_neg60: "fl (1 / 2 ^ 60) = 1 / 2 ^ 60"
proof -
  have "fl (1 / 2 ^ 60) =
      of_int (round_even ((1 / 2 ^ 60) / 2 powi (- 60 - 52))) * 2 powi (- 60 - 52)"
    by (rule fl_eval) (simp_all add: power_int_minus divide_simps)
  also have "round_even ((1 / 2 ^ 60) / 2 powi (- 60 - 52)) = 2 ^ 52"
    by (simp add: round_even_def Let_def power_int_minus)
  finally show ?thesis by (simp add: power_int_minus)
qed

text \<open>
  C6. The claim: for every non-negative distance the similarity is 1 / (1 + d),
  lies in (0, 1], is 1 at distance 0, never reaches 0, never raises, and is
  strictly decreasing in the distance. In binary64 arithmetic the last part fails:
  the distances 0 and 2^-60 are different floats with the same similarity 1.0.
\<close>

theorem similarity_not_strictly_decreasing:
  "is_double 0 \<and> is_double (1 / 2 ^ 60) \<and> (0::real) < 1 / 2 ^ 60 \<and>
   similarity 0 = Inr 1 \<and> similarity (1 / 2 ^ 60) = Inr 1"
proof -
  have "(1::real) / 2 ^ 60 \<le> MAX_DOUBLE" unfolding MAX_DOUBLE_def by simp
  then have "is_double (1 / 2 ^ 60)" using fl_pow2_neg60 by (simp add: is_double_def)
  moreover have "is_double 0" by (simp add: is_double_def fl_def MAX_DOUBLE_def)
  moreover have "similarity 0 = Inr 1" by (simp add: similarity_def fl_1)
  moreover have "similarity (1 / 2 ^ 60) = Inr 1"
    using fl_tiny_sum by (simp add: similarity_def fl_1)
  ultimately show ?thesis by simp
qed

text \<open>
  C6, as amended: for distances 0 <= d1 <= d2 within the finite float range the
  computation does not raise, its value is the twice-rounded quotient
  fl (1 / fl (1 + d)), it lies in (0, 1], it is exactly 1 at distance 0, and it
  is monotonically non-increasing in the distance.
\<close>

theorem similarity_bounded_antimono:
  assumes "0 \<le> d1" and "d1 \<le> d2" and "d2 \<le> MAX_DOUBLE"
  shows "similarity d1 = Inr (fl (1 / fl (1 + d1))) \<and>
         similarity d2 = Inr (fl (1 / fl (1 + d2))) \<and>
         fl (1 / fl (1 + d2)) \<le> fl (1 / fl (1 + d1)) \<and>
         0 < fl (1 / fl (1 + d2)) \<and> fl (1 / fl (1 + d1)) \<le> 1 \<and>
         similarity 0 = Inr 1"
proof -
  have d2: "0 \<le> d2" using assms by linarith
  have "similarity 0 = Inr 1" by (simp add: similarity_def fl_1)
  then show ?thesis
    using similarity_nonneg [OF assms(1)] similarity_nonneg [OF d2]
      score_antimono [OF assms(1,2)] score_pos [OF d2 assms(3)] score_le_1 [OF assms(1)]
    by simp
qed


lemma fl_2: "fl 2 = 2"
  using fl_eval [of 1 2] by (simp add: power_int_minus)

lemma fl_4: "fl 4 = 4"
  using fl_eval [of 2 4] by (simp add: power_int_minus)

lemma fl_10: "fl 10 = 10"
  using fl_eval [of 3 10] by (simp add: power_int_minus)

lemma fl_half: "fl (1 / 2) = 1 / 2"
  using fl_eval [of "- 1" "1 / 2"] by (simp add: power_int_minus)

lemma fl_quarter: "fl (1 / 4) = 1 / 4"
  using fl_eval [of "- 2" "1 / 4"] by (simp add: power_int_minus)

lemma fl_tenth: "fl (1 / 10) = 3602879701896397 / 36028797018963968"
proof -
  have "fl (1 / 10) =
      of_int (round_even ((1 / 10) / 2 powi (- 4 - 52))) * 2 powi (- 4 - 52)"
    by (rule fl_eval) (simp_all add: power_int_minus)
  also have "round_even ((1 / 10) / 2 powi (- 4 - 52)) = 7205759403792794"
    by (simp add: round_even_def Let_def power_int_minus)
  finally show ?thesis by (simp add: power_int_minus)
qed

text \<open>
  The amended C6 at the distances 0.0 and 9.0 of the specification's example:
  the similarities are 1.0 and the float 0.1.
\<close>

theorem similarity_bounded_antimono_witness:
  "similarity 0 = Inr 1 \<and> similarity 9 = Inr (3602879701896397 / 36028797018963968) \<and>
   (3602879701896397 / 36028797018963968 :: real) \<le> 1 \<and>
   (0 :: real) < 3602879701896397 / 36028797018963968"
proof -
  have "(9::real) \<le> MAX_DOUBLE" unfolding MAX_DOUBLE_def by simp
  then show ?thesis
    using similarity_bounded_antimono [of 0 9] by (simp add: fl_1 fl_10 fl_tenth)
qed

subsection \<open>The query operation\<close>

definition row :: "'m query_results \<Rightarrow> nat \<Rightarrow> 'm query_result" where
  "row results i =
     \<lparr>result_id = ids results ! i, result_content = documents results ! i,
      result_metadata = metadatas results ! i,
      result_score = fl (1 / fl (1 + (case distances results of
                                        Some ds \<Rightarrow> ds ! i | None \<Rightarrow> 0)))\<rparr>"

lemma candidates_row: "candidates results = map (row results) [0 ..< length (ids results)]"
  by (simp add: candidates_def row_def)

lemma distance_lookup:
  assumes "aligned results" and "i < length (ids results)"
  shows "\<exists>d. (case distances results of Some ds \<Rightarrow> py_nth ds i | None \<Rightarrow> Inr 0) = Inr d \<and>
             0 \<le> d \<and> d = (case distances results of Some ds \<Rightarrow> ds ! i | None \<Rightarrow> 0)"
proof (cases "distances results")
  case None
  then show ?thesis by simp
next
  case (Some ds)
  then have "length ds = length (ids results)" and "list_all (\<lambda>d. 0 \<le> d) ds"
    using assms(1) by (simp_all add: aligned_def)
  then show ?thesis using Some assms(2) by (simp add: py_nth_def list_all_length)
qed

lemma query_loop_step:
  assumes "aligned results" and "i < length (ids results)"
  shows "query_loop results k ms (i # rest) acc =
           (if result_score (row results i) < ms then query_loop results k ms rest acc
            else if k \<le> int (length acc) + 1 then Inr (acc @ [row results i])
            else query_loop results k ms rest (acc @ [row results i]))"
proof -
  obtain d where d: "(case distances results of Some ds \<Rightarrow> py_nth ds i | None \<Rightarrow> Inr 0) = Inr d"
    "0 \<le> d" "d = (case distances results of Some ds \<Rightarrow> ds ! i | None \<Rightarrow> 0)"
    using distance_lookup [OF assms] by blast
  have sim: "similarity d = Inr (result_score (row results i))"
    using similarity_nonneg [OF d(2)] d(3) by (simp add: row_def)
  have len: "i < length (documents results)" "i < length (metadatas results)"
    using assms by (simp_all add: aligned_def)
  show ?thesis
    using d(1) sim len assms(2)
    by (simp add: py_nth_def Let_def row_def)
qed

lemma query_loop_spec:
  assumes "aligned results" and "\<forall>i \<in> set is. i < length (ids results)"
    and "int (length acc) < k"
  shows "query_loop results k ms is acc =
           Inr (take (nat k) (acc @ filter (\<lambda>r. \<not> result_score r < ms) (map (row results) is)))"
  using assms(2,3)
proof (induction "is" arbitrary: acc)
  case Nil
  then show ?case by simp
next
  case (Cons i rest)
  have i: "i < length (ids results)" using Cons.prems(1) by simp
  have rest: "\<forall>i \<in> set rest. i < length (ids results)" using Cons.prems(1) by simp
  note step = query_loop_step [OF assms(1) i, of k ms rest acc]
  show ?case
  proof (cases "result_score (row results i) < ms")
    case True
    then show ?thesis using step Cons.IH [OF rest Cons.prems(2)] by simp
  next
    case False
    show ?thesis
    proof (cases "k \<le> int (length acc) + 1")
      case True
      then have "nat k = length acc + 1" using Cons.prems(2) by linarith
      then show ?thesis using step False True by simp
    next
      case stop: False
      then have "int (length (acc @ [row results i])) < k" by simp
      then show ?thesis using step False stop Cons.IH [OF rest, of "acc @ [row results i]"] by simp
    qed
  qed
qed

text \<open>
  C7. With an aligned answer of the index and no negative distance, a query with
  an effective top_k of at least 1 asks the index for exactly 2 * top_k results
  and returns, without raising, the first top_k candidates whose similarity is
  not below the threshold, in the index's order; fewer when fewer survive.
\<close>

theorem query_overfetch_filter_take:
  assumes "aligned (collection (query_request embedding_model q top_k filters))"
    and "0 < py_or top_k DEFAULT_TOP_K"
  shows "n_results (query_request embedding_model q top_k filters) = 2 * py_or top_k DEFAULT_TOP_K \<and>
         query embedding_model collection q top_k filters min_score =
           Inr (query_spec (collection (query_request embedding_model q top_k filters))
                  (nat (py_or top_k DEFAULT_TOP_K)) (py_or min_score MIN_SIMILARITY_SCORE))"
proof -
  let ?res = "collection (query_request embedding_model q top_k filters)"
  have "query_loop ?res (py_or top_k DEFAULT_TOP_K) (py_or min_score MIN_SIMILARITY_SCORE)
          [0 ..< length (ids ?res)] [] =
        Inr (take (nat (py_or top_k DEFAULT_TOP_K))
              ([] @ filter (\<lambda>r. \<not> result_score r < py_or min_score MIN_SIMILARITY_SCORE)
                      (map (row ?res) [0 ..< length (ids ?res)])))"
    using assms by (intro query_loop_spec) simp_all
  then show ?thesis
    by (simp add: query_def Let_def query_spec_def candidates_row query_request_def)
qed

text \<open>
  C7 on an index answer of four candidates at distances 0, 3, 1, 0 (similarities
  1, 1/4, 1/2, 1) with top_k = 2 and threshold 1/2: four results are requested,
  the second candidate is dropped, and the first two survivors are returned.
\<close>

theorem query_overfetch_filter_take_witness:
  "n_results (query_request (\<lambda>s. s) ''q'' (Some 2) (None :: unit option)) = 4 \<and>
   query (\<lambda>s. s)
     (\<lambda>r. \<lparr>ids = [''a'', ''b'', ''c'', ''d''], documents = [''A'', ''B'', ''C'', ''D''],
           metadatas = [(), (), (), ()], distances = Some [0, 3, 1, 0]\<rparr>)
     ''q'' (Some 2) (None :: unit option) (Some (1 / 2)) =
   Inr [\<lparr>result_id = ''a'', result_content = ''A'', result_metadata = (), result_score = 1\<rparr>,
        \<lparr>result_id = ''c'', result_content = ''C'', result_metadata = (), result_score = 1 / 2\<rparr>]"
proof -
  have up: "[0 ..< 4] = [0, 1, 2, 3]" by (simp add: upt_rec)
  show ?thesis
    using query_overfetch_filter_take [of
        "\<lambda>r. \<lparr>ids = [''a'', ''b'', ''c'', ''d''], documents = [''A'', ''B'', ''C'', ''D''],
           metadatas = [(), (), (), ()], distances = Some [0, 3, 1, 0]\<rparr>"
        "\<lambda>s. s" "''q''" "Some 2" "None :: unit option" "Some (1 / 2)"]
    by (simp add: aligned_def py_or_def DEFAULT_TOP_K_def query_spec_def candidates_def up
        fl_1 fl_2 fl_4 fl_half fl_quarter)
qed

text \<open>
  C10. An explicit top_k of 0 or min_score of 0.0 is falsy, so the query runs
  exactly as if the argument had not been passed: with DEFAULT_TOP_K = 3 (six
  results requested from the index) and with MIN_SIMILARITY_SCORE.
\<close>

theorem query_zero_arguments_fall_back:
  "query embedding_model collection q (Some 0) filters min_score =
     query embedding_model collection q None filters min_score \<and>
   query embedding_model collection q top_k filters (Some 0) =
     query embedding_model collection q top_k filters None \<and>
   query embedding_model collection q (Some 0) filters (Some 0) =
     query embedding_model collection q (Some DEFAULT_TOP_K) filters (Some MIN_SIMILARITY_SCORE) \<and>
   n_results (query_request embedding_model q (Some 0) filters) = 6 \<and>
   py_or (Some 0) DEFAULT_TOP_K = 3 \<and>
   py_or (Some 0) MIN_SIMILARITY_SCORE = MIN_SIMILARITY_SCORE"
  by (simp add: query_def query_request_def py_or_def DEFAULT_TOP_K_def)


end
